theory Spec2Isabelle
  imports Main "HOL-Library.Word"
begin

section \<open>hd-idle for Windows: the idle-time table and the disk statistics\<close>

text \<open>
  The program is a single file, \<^verbatim>\<open>hd-idle.cpp\<close>. Its \<^verbatim>\<open>main\<close> builds a linked list of
  idle-time parameters from the command line, derives the polling interval from it, and
  then probes the physical drives forever, keeping one \<^verbatim>\<open>DISKSTATS\<close> record per drive.

  Conventions of the embedding.
  \<^item> The two linked lists \<^verbatim>\<open>it_root\<close> and \<^verbatim>\<open>ds_root\<close> are HOL lists, head first. A pointer
    into \<^verbatim>\<open>ds_root\<close> returned by \<^verbatim>\<open>get_diskstats\<close> is the first element with that name;
    writing through the pointer rewrites that element in place.
  \<^item> The record fields are prefixed (\<open>it_\<close>, \<open>ds_\<close>) where the two structs share a field
    name.
  \<^item> C \<^verbatim>\<open>int\<close> (the idle time) and \<^verbatim>\<open>time_t\<close> (64 bits) are \<open>int\<close>: the code only
    compares them, subtracts two timestamps and divides by ten, none of which leaves the
    machine range for values inside it. The division is C's, truncating towards zero.
    The read and write counters are \<^verbatim>\<open>unsigned int\<close>, hence \<open>32 word\<close>.
  \<^item> Everything the operating system answers (the clock, handles, power state, drive
    type, performance counters, the results of the ATA pass-through calls, \<^verbatim>\<open>malloc\<close>)
    is an input, collected in the record \<open>env\<close>: what each call would return if it were
    made. Which calls are made, and what is printed, is the list of \<open>action\<close>s a function
    returns. \<^verbatim>\<open>dprintf\<close> is \<^verbatim>\<open>if (debug) printf\<close> and \<^verbatim>\<open>debug\<close> is initialised to 1 and
    only ever set to 1, so every \<^verbatim>\<open>dprintf\<close> prints. A printed line is kept as its format
    string (without the final newline) and its arguments.
\<close>

record IDLE_TIME =
  it_name :: "string option"    \<comment> \<open>\<^verbatim>\<open>char *name\<close>, \<open>None\<close> for \<^verbatim>\<open>NULL\<close>\<close>
  it_idle_time :: int

record DISKSTATS =
  ds_name :: string
  ds_idle_time :: int
  last_io :: int
  spindown :: int
  spinup :: int
  spun_down :: bool
  reads :: "32 word"
  writes :: "32 word"

definition DEFAULT_IDLE_TIME :: int where
  "DEFAULT_IDLE_TIME = 60"

subsection \<open>Constants of the Windows headers\<close>

text \<open>
  The program takes these from \<^verbatim>\<open>Windows.h\<close>; the values are those of the Windows SDK
  (\<^verbatim>\<open>winerror.h\<close>, \<^verbatim>\<open>WinBase.h\<close>). They select log lines, the call of \<^verbatim>\<open>diskperf\<close>
  and the fixed-drive gate; no theorem below depends on the numbers.
\<close>

definition ERROR_INVALID_FUNCTION :: nat where "ERROR_INVALID_FUNCTION = 1"
definition ERROR_FILE_NOT_FOUND :: nat where "ERROR_FILE_NOT_FOUND = 2"
definition ERROR_ACCESS_DENIED :: nat where "ERROR_ACCESS_DENIED = 5"
definition ERROR_NOT_SUPPORTED :: nat where "ERROR_NOT_SUPPORTED = 50"

definition DRIVE_UNKNOWN :: nat where "DRIVE_UNKNOWN = 0"
definition DRIVE_NO_ROOT_DIR :: nat where "DRIVE_NO_ROOT_DIR = 1"
definition DRIVE_REMOVABLE :: nat where "DRIVE_REMOVABLE = 2"
definition DRIVE_FIXED :: nat where "DRIVE_FIXED = 3"
definition DRIVE_REMOTE :: nat where "DRIVE_REMOTE = 4"
definition DRIVE_CDROM :: nat where "DRIVE_CDROM = 5"
definition DRIVE_RAMDISK :: nat where "DRIVE_RAMDISK = 6"

subsection \<open>Observable actions\<close>

datatype arg = Arg_s string | Arg_d int | Arg_u "32 word"

datatype action =
    Printf string "arg list"                \<comment> \<open>\<^verbatim>\<open>printf\<close> and \<^verbatim>\<open>dprintf\<close>\<close>
  | Fprintf_stderr string "arg list"
  | GetDevicePowerState string
  | GetDriveTypeA string
  | Call_ata_check_power_mode string
  | IOCTL_DISK_PERFORMANCE string            \<comment> \<open>the read of the read/write counters\<close>
  | Call_ata_set_standby_mode string         \<comment> \<open>the standby command\<close>
  | System string
  | Sleep int

fun is_printf :: "action \<Rightarrow> bool" where
  "is_printf (Printf f as) = True"
| "is_printf a = False"

section \<open>Command line: building \<^verbatim>\<open>it_root\<close>\<close>

text \<open>
  \<^verbatim>\<open>getopt\<close> is external; the command line is the list of options it returns, in order.
  \<open>Opt_i v\<close> carries the value \<^verbatim>\<open>atoi(optarg)\<close>; \<open>Opt_colon\<close> and \<open>Opt_question\<close> are the
  results \<^verbatim>\<open>':'\<close> and \<^verbatim>\<open>'?'\<close>. Logfile and debug flag feed no decision and are not kept;
  \<^verbatim>\<open>-t\<close> calls \<^verbatim>\<open>spindown_disk\<close> and returns 0 before any table is used.
  \<^verbatim>\<open>malloc\<close> is taken to succeed while the table is built.
\<close>

datatype opt =
    Opt_t string | Opt_a string | Opt_i int | Opt_l string | Opt_d | Opt_h
  | Opt_colon | Opt_question

text \<open>
  Inside the loop the local pointer \<^verbatim>\<open>it\<close> always equals \<^verbatim>\<open>it_root\<close>: both are set to the
  default entry before the loop and to the new entry by every \<^verbatim>\<open>-a\<close>. So \<^verbatim>\<open>-i\<close> writes the
  head of the list. \<open>Inl c\<close> is \<^verbatim>\<open>return c\<close> from \<^verbatim>\<open>main\<close>.
\<close>

fun getopt_loop :: "IDLE_TIME list \<Rightarrow> opt list \<Rightarrow> int + IDLE_TIME list" where
  "getopt_loop its [] = Inr its"
| "getopt_loop its (Opt_t d # os) = Inl 0"
| "getopt_loop its (Opt_a n # os) =
     getopt_loop (\<lparr>it_name = Some n, it_idle_time = DEFAULT_IDLE_TIME\<rparr> # its) os"
| "getopt_loop its (Opt_i v # os) =
     getopt_loop (case its of [] \<Rightarrow> [] | it # rest \<Rightarrow> it\<lparr>it_idle_time := v\<rparr> # rest) os"
| "getopt_loop its (Opt_l f # os) = getopt_loop its os"
| "getopt_loop its (Opt_d # os) = getopt_loop its os"
| "getopt_loop its (Opt_h # os) = Inl 0"
| "getopt_loop its (Opt_colon # os) = Inl 1"
| "getopt_loop its (Opt_question # os) = Inl 1"

definition process_options :: "opt list \<Rightarrow> int + IDLE_TIME list" where
  "process_options opts =
     getopt_loop [\<lparr>it_name = None, it_idle_time = DEFAULT_IDLE_TIME\<rparr>] opts"

subsection \<open>The idle time of a disk\<close>

text \<open>
  The loop run for a new disk: the first entry whose name is \<^verbatim>\<open>NULL\<close> or \<^verbatim>\<open>strcmp\<close>-equal
  to the disk's name. \<open>None\<close> when the loop falls through (the disk keeps the zero of the
  \<^verbatim>\<open>memset\<close>).
\<close>

fun resolve_idle_time :: "IDLE_TIME list \<Rightarrow> string \<Rightarrow> int option" where
  "resolve_idle_time [] nm = None"
| "resolve_idle_time (it # its) nm =
     (if it_name it = None \<or> it_name it = Some nm then Some (it_idle_time it)
      else resolve_idle_time its nm)"

subsection \<open>The polling interval\<close>

definition c_div :: "int \<Rightarrow> int \<Rightarrow> int" where
  "c_div a b = sgn a * sgn b * (\<bar>a\<bar> div \<bar>b\<bar>)"

fun min_idle_time_loop :: "int \<Rightarrow> IDLE_TIME list \<Rightarrow> int" where
  "min_idle_time_loop m [] = m"
| "min_idle_time_loop m (it # its) =
     min_idle_time_loop
       (if it_idle_time it \<noteq> 0 \<and> it_idle_time it < m then it_idle_time it else m) its"

definition sleep_time :: "IDLE_TIME list \<Rightarrow> int" where
  "sleep_time its =
     (let min_idle_time = min_idle_time_loop (2 ^ 30) its;
          st = c_div min_idle_time 10;
          st = (if st = 0 then 1 else st)
      in if st > 10 then 10 else st)"

section \<open>The ATA helpers\<close>

text \<open>
  For each helper the answers of the system are: the error of \<^verbatim>\<open>CreateFile\<close> (\<open>None\<close> for a
  valid handle), the error of \<^verbatim>\<open>DeviceIoControl\<close> (\<open>None\<close> for success) and, for the power
  mode, the sector count register \<^verbatim>\<open>CurrentTaskFile[1]\<close>.
\<close>

record ata_env =
  ata_open_error :: "nat option"
  ata_ioctl_error :: "nat option"
  ata_task_file1 :: "8 word"

record standby_env =
  sb_open_error :: "nat option"
  sb_flushed :: bool
  sb_ioctl_error :: "nat option"

definition open_error_log :: "string \<Rightarrow> string \<Rightarrow> nat \<Rightarrow> action list" where
  "open_error_log fn nm err =
     (if err = ERROR_FILE_NOT_FOUND then [Printf (fn @ ''(%s): ERROR_FILE_NOT_FOUND'') [Arg_s nm]]
      else if err = ERROR_ACCESS_DENIED then
        [Printf (fn @ ''(%s): ERROR_ACCESS_DENIED'') [Arg_s nm],
         Printf (fn @ ''(%s): application requires admin privileges'') [Arg_s nm]]
      else [Printf (fn @ ''(%s): error 0x%lx'') [Arg_s nm, Arg_d (int err)]])"

definition ioctl_error_log :: "string \<Rightarrow> string \<Rightarrow> nat \<Rightarrow> action list" where
  "ioctl_error_log fn nm err =
     (if err = ERROR_INVALID_FUNCTION then [Printf (fn @ ''(%s): ERROR_INVALID_FUNCTION'') [Arg_s nm]]
      else if err = ERROR_NOT_SUPPORTED then [Printf (fn @ ''(%s): ERROR_NOT_SUPPORTED'') [Arg_s nm]]
      else if err = ERROR_ACCESS_DENIED then
        [Printf (fn @ ''(%s): ERROR_ACCESS_DENIED'') [Arg_s nm],
         Printf (fn @ ''(%s): application requires admin privileges'') [Arg_s nm]]
      else [])"

definition ata_check_power_mode :: "string \<Rightarrow> ata_env \<Rightarrow> int \<times> action list" where
  "ata_check_power_mode nm a =
     (case ata_open_error a of
        Some err \<Rightarrow> (- 1, open_error_log ''ata_check_power_mode'' nm err)
      | None \<Rightarrow>
         (case ata_ioctl_error a of
            Some err \<Rightarrow> (- 1, ioctl_error_log ''ata_check_power_mode'' nm err)
          | None \<Rightarrow> (uint (ata_task_file1 a), [])))"

definition ata_set_standby_mode :: "string \<Rightarrow> standby_env \<Rightarrow> bool \<times> action list" where
  "ata_set_standby_mode nm b =
     (case sb_open_error b of
        Some err \<Rightarrow> (False, open_error_log ''ata_set_standby_mode'' nm err)
      | None \<Rightarrow>
         (let flush_log =
                (if sb_flushed b then []
                 else [Printf ''ata_set_standby_mode(%s): failed to flush file buffers / write cache'' [Arg_s nm]])
          in case sb_ioctl_error b of
               Some err \<Rightarrow> (False, flush_log @ ioctl_error_log ''ata_set_standby_mode'' nm err)
             | None \<Rightarrow> (True, flush_log @ [Printf ''ata_set_standby_mode(%s): SUCCESS'' [Arg_s nm]])))"

definition ata_power_mode_string :: "int \<Rightarrow> string" where
  "ata_power_mode_string ata =
     (if ata = 0x00 \<or> ata = 0x01 then ''standby mode''
      else if ata = 0x80 \<or> ata = 0x81 \<or> ata = 0x82 \<or> ata = 0x83 then ''idle mode''
      else if ata = 0xff then ''active or idle mode''
      else '''')"

section \<open>The main loop\<close>

subsection \<open>What the system answers during one probe\<close>

record env =
  now :: int                         \<comment> \<open>\<^verbatim>\<open>time(NULL)\<close>\<close>
  open_error :: "nat option"         \<comment> \<open>\<^verbatim>\<open>CreateFile\<close> in \<^verbatim>\<open>main\<close>; \<open>None\<close> for a valid handle\<close>
  power_r :: bool                    \<comment> \<open>\<^verbatim>\<open>GetDevicePowerState\<close> returned non-zero\<close>
  power_fOn :: bool                  \<comment> \<open>the flag it stored\<close>
  drive_type :: nat                  \<comment> \<open>\<^verbatim>\<open>GetDriveTypeA\<close>\<close>
  ata :: ata_env
  perf_result :: int                 \<comment> \<open>\<^verbatim>\<open>DeviceIoControl(IOCTL_DISK_PERFORMANCE)\<close>\<close>
  perf_bytesReturned :: nat
  perf_ReadCount :: "32 word"
  perf_WriteCount :: "32 word"
  perf_error :: nat                  \<comment> \<open>\<^verbatim>\<open>GetLastError\<close> after a failed query\<close>
  malloc_ok :: bool
  standby :: standby_env

record state =
  ds_root :: "DISKSTATS list"
  tried_diskperf :: bool             \<comment> \<open>the \<^verbatim>\<open>static bool\<close> of the loop body\<close>

datatype flow = Continue | Break | Return int

subsection \<open>Disk names\<close>

fun dec :: "nat \<Rightarrow> string" where
  "dec n = (if n < 10 then [char_of (48 + n)] else dec (n div 10) @ [char_of (48 + n mod 10)])"

definition backslash :: char where
  "backslash = char_of (0x5C :: nat)"

definition drive_name :: "nat \<Rightarrow> string" where
  "drive_name i = [backslash, backslash, CHR ''.'', backslash] @ ''PhysicalDrive'' @ dec i"

subsection \<open>\<^verbatim>\<open>get_diskstats\<close> and writes through the pointer it returns\<close>

fun get_diskstats :: "string \<Rightarrow> DISKSTATS list \<Rightarrow> DISKSTATS option" where
  "get_diskstats nm [] = None"
| "get_diskstats nm (ds # dss) = (if ds_name ds = nm then Some ds else get_diskstats nm dss)"

fun put_diskstats :: "string \<Rightarrow> DISKSTATS \<Rightarrow> DISKSTATS list \<Rightarrow> DISKSTATS list" where
  "put_diskstats nm ds' [] = []"
| "put_diskstats nm ds' (ds # dss) =
     (if ds_name ds = nm then ds' # dss else ds # put_diskstats nm ds' dss)"

subsection \<open>One pass of the loop body: lines 372 to 429, the statistics of a probed disk\<close>

text \<open>
  \<^verbatim>\<open>tmp\<close> is zeroed once per cycle and only its name and counters are ever written, so the
  \<^verbatim>\<open>memcpy\<close> for a new disk copies zero into every other field before \<^verbatim>\<open>last_io\<close>,
  \<^verbatim>\<open>spinup\<close> and the idle time are set. \<open>mode\<close> is \<^verbatim>\<open>ata_power_mode_string\<close>.
\<close>

definition update_stats ::
  "IDLE_TIME list \<Rightarrow> string \<Rightarrow> env \<Rightarrow> string \<Rightarrow> state \<Rightarrow> flow \<times> state \<times> action list" where
  "update_stats it_root nm e mode s =
     (let r = perf_ReadCount e; w = perf_WriteCount e; t = now e in
      case get_diskstats nm (ds_root s) of
        None \<Rightarrow>
          (let log = [Printf ''probing %s: reads: %u, writes: %u, new disk - %s''
                        [Arg_s nm, Arg_u r, Arg_u w, Arg_s mode]] in
           if \<not> malloc_ok e then (Return 2, s, log @ [Fprintf_stderr ''out of memory'' []])
           else
             let ds = \<lparr>ds_name = nm, ds_idle_time = 0, last_io = t, spindown = 0, spinup = t,
                        spun_down = False, reads = r, writes = w\<rparr>;
                 ds = (case resolve_idle_time it_root nm of
                         None \<Rightarrow> ds
                       | Some v \<Rightarrow> ds\<lparr>ds_idle_time := v\<rparr>)
             in (Continue, s\<lparr>ds_root := ds # ds_root s\<rparr>, log))
      | Some ds \<Rightarrow>
          if reads ds = r \<and> writes ds = w then
            if \<not> spun_down ds then
              (let log = [Printf ''probing %s: reads: %u, writes: %u, elapsed %llu / %d - %s''
                            [Arg_s nm, Arg_u r, Arg_u w, Arg_d (t - last_io ds),
                             Arg_d (ds_idle_time ds), Arg_s mode]] in
               if ds_idle_time ds \<noteq> 0 \<and> t - last_io ds \<ge> ds_idle_time ds then
                 (Continue,
                  s\<lparr>ds_root := put_diskstats nm (ds\<lparr>spindown := t, spun_down := True\<rparr>) (ds_root s)\<rparr>,
                  log @ [Call_ata_set_standby_mode (ds_name ds)]
                      @ snd (ata_set_standby_mode (ds_name ds) (standby e)))
               else (Continue, s, log))
            else
              (Continue, s,
               [Printf ''probing %s: reads: %u, writes: %u, elapsed %llu / %d spun_down %u - %s''
                  [Arg_s nm, Arg_u r, Arg_u w, Arg_d (t - last_io ds), Arg_d (ds_idle_time ds),
                   Arg_u (if spun_down ds then 1 else 0), Arg_s mode]])
          else
            (Continue,
             s\<lparr>ds_root :=
                 put_diskstats nm
                   (ds\<lparr>spinup := (if spun_down ds then t else spinup ds),
                       reads := r, writes := w, last_io := t, spun_down := False\<rparr>)
                   (ds_root s)\<rparr>,
             [Printf ''probing %s: reads: %u, writes: %u, elapsed %llu / %d - %s''
                [Arg_s nm, Arg_u r, Arg_u w, Arg_d (t - last_io ds), Arg_d (ds_idle_time ds),
                 Arg_s mode]]))"

subsection \<open>The loop body, for the drive named \<open>nm\<close> (\<^verbatim>\<open>tmp.name\<close>)\<close>

definition drive_type_log :: "nat \<Rightarrow> string" where
  "drive_type_log type =
     (if type = DRIVE_UNKNOWN then ''probing %s: drive unknown''
      else if type = DRIVE_NO_ROOT_DIR then ''probing %s: root path invalid''
      else if type = DRIVE_REMOVABLE then ''probing %s: removable media''
      else if type = DRIVE_FIXED then ''probing %s: fixed drive''
      else if type = DRIVE_REMOTE then ''probing %s: network drive''
      else if type = DRIVE_CDROM then ''probing %s: cdrom drive''
      else if type = DRIVE_RAMDISK then ''probing %s: ramdisk''
      else ''probing %s: unknown drive type'')"

definition probe ::
  "IDLE_TIME list \<Rightarrow> string \<Rightarrow> env \<Rightarrow> state \<Rightarrow> flow \<times> state \<times> action list" where
  "probe it_root nm e s =
     (case open_error e of
        Some err \<Rightarrow>
          (Break, s,
           if err = ERROR_ACCESS_DENIED
           then [Printf ''probing %s: application requires admin privileges'' [Arg_s nm]]
           else [])
      | None \<Rightarrow>
          if \<not> power_r e \<or> \<not> power_fOn e then
            (Continue,
             s\<lparr>ds_root :=
                 (case get_diskstats nm (ds_root s) of
                    None \<Rightarrow> ds_root s
                  | Some ds \<Rightarrow> put_diskstats nm (ds\<lparr>spun_down := True\<rparr>) (ds_root s))\<rparr>,
             [GetDevicePowerState nm, Printf ''probing %s: asleep'' [Arg_s nm]])
          else if drive_type e \<noteq> DRIVE_FIXED then
            (Continue, s,
             [GetDevicePowerState nm, GetDriveTypeA (nm @ [backslash]),
              Printf (drive_type_log (drive_type e)) [Arg_s nm]])
          else
            (let (ata_mode, ata_log) = ata_check_power_mode nm (ata e);
                 mode = ata_power_mode_string ata_mode;
                 pre = [GetDevicePowerState nm, GetDriveTypeA (nm @ [backslash]),
                        Call_ata_check_power_mode nm] @ ata_log @ [IOCTL_DISK_PERFORMANCE nm]
             in
             if perf_result e = 0 \<or> perf_bytesReturned e \<le> 0 then
               (let log = [Printf ''probing %s: cannot query read/write counts  result %d  bytesReturned %d error 0x%dx''
                             [Arg_s nm, Arg_d (perf_result e), Arg_d (int (perf_bytesReturned e)),
                              Arg_d (int (perf_error e))]] in
                if perf_error e = 1 \<and> \<not> tried_diskperf s
                then (Continue, s\<lparr>tried_diskperf := True\<rparr>, pre @ log @ [System ''diskperf -YD''])
                else (Continue, s, pre @ log))
             else
               (case update_stats it_root nm e mode s of
                  (f, s', acts) \<Rightarrow> (f, s', pre @ acts))))"

subsection \<open>The \<^verbatim>\<open>for\<close> loop over the drives and the endless loop around it\<close>

text \<open>
  \<open>probe_loop it_root envs n i s\<close> runs the probes of drives \<open>i\<close>, \<open>i + 1\<close>, ... for at most
  \<open>n\<close> drives; \<open>envs i\<close> is what the system answers about drive \<open>i\<close> in this cycle. The
  first component is the exit code when \<^verbatim>\<open>main\<close> returns. The outer loop never ends by
  itself: \<open>main_loop\<close> runs the cycles it is given answers for, and \<open>None\<close> then says that
  the program is still running.
\<close>

fun probe_loop ::
  "IDLE_TIME list \<Rightarrow> (nat \<Rightarrow> env) \<Rightarrow> nat \<Rightarrow> nat \<Rightarrow> state \<Rightarrow> int option \<times> state \<times> action list" where
  "probe_loop it_root envs 0 i s = (None, s, [])"
| "probe_loop it_root envs (Suc n) i s =
     (case probe it_root (drive_name i) (envs i) s of
        (Break, s', acts) \<Rightarrow> (None, s', acts)
      | (Return c, s', acts) \<Rightarrow> (Some c, s', acts)
      | (Continue, s', acts) \<Rightarrow>
          (case probe_loop it_root envs n (Suc i) s' of
             (r, s'', acts') \<Rightarrow> (r, s'', acts @ acts')))"

fun main_loop ::
  "IDLE_TIME list \<Rightarrow> int \<Rightarrow> (nat \<Rightarrow> env) list \<Rightarrow> state \<Rightarrow> int option \<times> state \<times> action list" where
  "main_loop it_root st [] s = (None, s, [])"
| "main_loop it_root st (envs # cycles) s =
     (case probe_loop it_root envs 255 0 s of
        (Some c, s', acts) \<Rightarrow> (Some c, s', acts)
      | (None, s', acts) \<Rightarrow>
          (case main_loop it_root st cycles s' of
             (r, s'', acts') \<Rightarrow> (r, s'', acts @ Sleep st # acts')))"

definition initial_state :: state where
  "initial_state = \<lparr>ds_root = [], tried_diskperf = False\<rparr>"

definition main :: "opt list \<Rightarrow> (nat \<Rightarrow> env) list \<Rightarrow> int option \<times> state \<times> action list" where
  "main opts cycles =
     (case process_options opts of
        Inl c \<Rightarrow> (Some c, initial_state, [])
      | Inr it_root \<Rightarrow> main_loop it_root (sleep_time it_root) cycles initial_state)"

subsection \<open>Successive probes\<close>

text \<open>
  Whatever the loops do to the disk statistics is a sequence of passes of the loop body.
  \<open>run_probes\<close> runs such a sequence, given as the names probed and the answers of the
  system, and returns the final state with the actions of each pass. A pass that leaves
  the \<^verbatim>\<open>for\<close> loop early only ends a cycle, so the next pass belongs to the next cycle; the
  program stops at a \<^verbatim>\<open>return\<close>, where its run is a prefix of the sequence.
\<close>

fun run_probes ::
  "IDLE_TIME list \<Rightarrow> (string \<times> env) list \<Rightarrow> state \<Rightarrow> state \<times> action list list" where
  "run_probes it_root [] s = (s, [])"
| "run_probes it_root ((nm, e) # es) s =
     (case probe it_root nm e s of
        (f, s', acts) \<Rightarrow>
          (case run_probes it_root es s' of (s'', tr) \<Rightarrow> (s'', acts # tr)))"

section \<open>Notions used to state the properties\<close>

text \<open>
  Following the specification's words: the \<^verbatim>\<open>-i\<close> options that belong to an entry are
  those given after its \<^verbatim>\<open>-a\<close> (for the default entry: from the start of the command line)
  and before the next \<^verbatim>\<open>-a\<close>; the last of them counts, and \<open>v\<close> stays when there is none.
\<close>

fun current_idle_time :: "int \<Rightarrow> opt list \<Rightarrow> int" where
  "current_idle_time v [] = v"
| "current_idle_time v (Opt_i n # os) = current_idle_time n os"
| "current_idle_time v (Opt_a d # os) = v"
| "current_idle_time v (x # os) = current_idle_time v os"

text \<open>
  The answers with which a pass reaches the comparison of the counters: the drive opens,
  is reported powered on, is a fixed drive, and the counters are read as \<open>r\<close> and \<open>w\<close>.
\<close>

definition counters_read :: "env \<Rightarrow> 32 word \<Rightarrow> 32 word \<Rightarrow> bool" where
  "counters_read e r w \<longleftrightarrow>
     open_error e = None \<and> power_r e \<and> power_fOn e \<and> drive_type e = DRIVE_FIXED \<and>
     perf_result e \<noteq> 0 \<and> 0 < perf_bytesReturned e \<and>
     perf_ReadCount e = r \<and> perf_WriteCount e = w"

text \<open>
  The decision of a pass that has read the counters, and the record it leaves behind:
  \<open>spins_down\<close> is the condition under which the standby command is sent, \<open>after_read\<close>
  the stored record after the pass.
\<close>

definition spins_down :: "env \<Rightarrow> DISKSTATS \<Rightarrow> bool" where
  "spins_down e ds \<longleftrightarrow>
     reads ds = perf_ReadCount e \<and> writes ds = perf_WriteCount e \<and> \<not> spun_down ds \<and>
     ds_idle_time ds \<noteq> 0 \<and> ds_idle_time ds \<le> now e - last_io ds"

definition after_read :: "env \<Rightarrow> DISKSTATS \<Rightarrow> DISKSTATS" where
  "after_read e ds =
     (if reads ds = perf_ReadCount e \<and> writes ds = perf_WriteCount e then
        (if spins_down e ds then ds\<lparr>spindown := now e, spun_down := True\<rparr> else ds)
      else ds\<lparr>spinup := (if spun_down ds then now e else spinup ds),
              reads := perf_ReadCount e, writes := perf_WriteCount e,
              last_io := now e, spun_down := False\<rparr>)"

subsection \<open>Sample inputs\<close>

text \<open>
  \<open>awake_env t r w\<close>: at time \<open>t\<close> the drive opens, is powered on and fixed, reports
  active-or-idle, and its counters read \<open>r\<close> and \<open>w\<close>; every call succeeds.
  \<open>sample_disk\<close> is the record of drive 1 with an idle time of 90 seconds, last active
  at time 0 with 100 reads and 50 writes.
\<close>

definition awake_env :: "int \<Rightarrow> 32 word \<Rightarrow> 32 word \<Rightarrow> env" where
  "awake_env t r w =
     \<lparr>now = t, open_error = None, power_r = True, power_fOn = True, drive_type = DRIVE_FIXED,
      ata = \<lparr>ata_open_error = None, ata_ioctl_error = None, ata_task_file1 = 0xFF\<rparr>,
      perf_result = 1, perf_bytesReturned = 88, perf_ReadCount = r, perf_WriteCount = w,
      perf_error = 0, malloc_ok = True,
      standby = \<lparr>sb_open_error = None, sb_flushed = True, sb_ioctl_error = None\<rparr>\<rparr>"

definition sample_disk :: DISKSTATS where
  "sample_disk =
     \<lparr>ds_name = drive_name 1, ds_idle_time = 90, last_io = 0, spindown = 0, spinup = 0,
      spun_down = False, reads = 100, writes = 50\<rparr>"

definition sample_state :: state where
  "sample_state = \<lparr>ds_root = [sample_disk], tried_diskperf = False\<rparr>"

section \<open>The polling interval\<close>

lemma min_idle_time_loop_Min:
  "min_idle_time_loop m its =
     (let ts = filter (\<lambda>t. t \<noteq> 0) (map it_idle_time its)
      in if ts = [] then m else min m (Min (set ts)))"
proof (induction its arbitrary: m)
  case Nil
  show ?case by simp
next
  case (Cons it its)
  define ts where "ts = filter (\<lambda>t. t \<noteq> 0) (map it_idle_time its)"
  define x where "x = it_idle_time it"
  have IH: "min_idle_time_loop m' its = (if ts = [] then m' else min m' (Min (set ts)))" for m'
    by (simp add: Cons.IH ts_def Let_def)
  show ?case
  proof (cases "x = 0")
    case True
    then show ?thesis using IH by (simp add: x_def ts_def Let_def)
  next
    case False
    have ins: "ts \<noteq> [] \<Longrightarrow> Min (insert x (set ts)) = min x (Min (set ts))"
      by (simp add: Min_insert)
    have "min_idle_time_loop m (it # its) = min_idle_time_loop (min m x) its"
      using False by (simp add: x_def min_def not_less)
    also have "\<dots> = (if ts = [] then min m x else min m (Min (insert x (set ts))))"
      using ins by (simp add: IH min.assoc)
    finally have eq: "min_idle_time_loop m (it # its) =
        (if ts = [] then min m x else min m (Min (insert x (set ts))))" .
    have flt: "filter (\<lambda>t. t \<noteq> 0) (map it_idle_time (it # its)) = x # ts"
      using False by (simp add: x_def ts_def)
    show ?thesis unfolding Let_def flt eq
      by (cases "ts = []") simp_all
  qed
qed

lemma c_div_nonneg: "0 \<le> a \<Longrightarrow> c_div a 10 = a div 10"
  by (cases "a = 0") (simp_all add: c_div_def)

text \<open>
  C8, as stated, fails: when every entry of the table has idle time 0 the loop keeps its
  start value \<open>2 ^ 30\<close>, a tenth of which is cut to 10. The command line \<^verbatim>\<open>-i 0\<close> gives
  such a table, and the interval is 10, not 1.
\<close>

theorem sleep_time_all_zero_counterexample:
  "process_options [Opt_i 0] = Inr [\<lparr>it_name = None, it_idle_time = 0\<rparr>] \<and>
   sleep_time [\<lparr>it_name = None, it_idle_time = 0\<rparr>] = 10 \<and>
   sleep_time [\<lparr>it_name = None, it_idle_time = 0\<rparr>] \<noteq> 1"
  by (simp add: process_options_def sleep_time_def c_div_def)

text \<open>
  C8, amended: for a table of non-negative idle times, the interval is
  \<open>max 1 (m div 10)\<close> cut to 10, where \<open>m\<close> is the least non-zero idle time of the table;
  when every idle time is 0 the interval is 10.
\<close>

theorem sleep_time_spec:
  assumes "\<forall>it \<in> set its. 0 \<le> it_idle_time it"
  shows "sleep_time its =
     (if \<forall>it \<in> set its. it_idle_time it = 0 then 10
      else min 10 (max 1 (Min (set (filter (\<lambda>t. t \<noteq> 0) (map it_idle_time its))) div 10)))"
proof (cases "\<forall>it \<in> set its. it_idle_time it = 0")
  case True
  then have "filter (\<lambda>t. t \<noteq> 0) (map it_idle_time its) = []"
    by (auto simp: filter_empty_conv)
  then have "min_idle_time_loop (2 ^ 30) its = 2 ^ 30"
    by (simp add: min_idle_time_loop_Min)
  then show ?thesis using True
    by (simp add: sleep_time_def c_div_def)
next
  case False
  define ts where "ts = filter (\<lambda>t. t \<noteq> 0) (map it_idle_time its)"
  have ne: "ts \<noteq> []" using False by (auto simp: ts_def filter_empty_conv)
  have "Min (set ts) \<in> set ts" using ne by (intro Min_in) auto
  then have pos: "1 \<le> Min (set ts)" using assms by (auto simp: ts_def)
  have m: "min_idle_time_loop (2 ^ 30) its = min (2 ^ 30) (Min (set ts))"
    using ne by (simp add: min_idle_time_loop_Min ts_def)
  have "c_div (min (2 ^ 30) (Min (set ts))) 10 = min (2 ^ 30) (Min (set ts)) div 10"
    using pos by (intro c_div_nonneg) simp
  then show ?thesis using False pos
    unfolding sleep_time_def m ts_def[symmetric] Let_def
    by (auto simp: min_def max_def)
qed

theorem sleep_time_spec_witness:
  "list_all (\<lambda>it. 0 \<le> it_idle_time it)
     [\<lparr>it_name = Some ''sdb'', it_idle_time = 50\<rparr>, \<lparr>it_name = None, it_idle_time = 0\<rparr>] \<and>
   sleep_time [\<lparr>it_name = Some ''sdb'', it_idle_time = 50\<rparr>, \<lparr>it_name = None, it_idle_time = 0\<rparr>] = 5"
  using sleep_time_spec [of "[\<lparr>it_name = Some ''sdb'', it_idle_time = 50\<rparr>, \<lparr>it_name = None, it_idle_time = 0\<rparr>]"]
  by simp

section \<open>The idle-time table built from the command line\<close>

lemma getopt_loop_append:
  "getopt_loop its (xs @ ys) =
     (case getopt_loop its xs of Inl c \<Rightarrow> Inl c | Inr its1 \<Rightarrow> getopt_loop its1 ys)"
  by (induction its xs rule: getopt_loop.induct) simp_all

text \<open>Entries in front that do not match \<open>d\<close> stay in front and stay non-matching.\<close>

lemma getopt_loop_skip:
  assumes "getopt_loop (front @ rest) os = Inr its'"
    and "front \<noteq> []"
    and "\<forall>it \<in> set front. it_name it \<noteq> None \<and> it_name it \<noteq> Some d"
    and "Opt_a d \<notin> set os"
  shows "\<exists>front'. its' = front' @ rest \<and> front' \<noteq> [] \<and>
           (\<forall>it \<in> set front'. it_name it \<noteq> None \<and> it_name it \<noteq> Some d)"
  using assms
proof (induction "front @ rest" os arbitrary: front rule: getopt_loop.induct)
  case (3 n os)
  have "getopt_loop ((\<lparr>it_name = Some n, it_idle_time = DEFAULT_IDLE_TIME\<rparr> # front) @ rest) os = Inr its'"
    using 3 by simp
  moreover have "n \<noteq> d" using 3 by auto
  ultimately show ?case
    using 3(1)[of "\<lparr>it_name = Some n, it_idle_time = DEFAULT_IDLE_TIME\<rparr> # front"] 3(4,5)
    by auto
next
  case (4 v os)
  then obtain h t where f: "front = h # t" by (cases front) auto
  have "getopt_loop ((h\<lparr>it_idle_time := v\<rparr> # t) @ rest) os = Inr its'"
    using 4 f by simp
  then show ?case
    using 4(1)[of "h\<lparr>it_idle_time := v\<rparr> # t"] 4(4,5) f by auto
qed auto

lemma resolve_skip:
  "\<forall>it \<in> set front. it_name it \<noteq> None \<and> it_name it \<noteq> Some d \<Longrightarrow>
   resolve_idle_time (front @ rest) d = resolve_idle_time rest d"
  by (induction front) auto

lemma getopt_loop_current:
  assumes "getopt_loop (h # rest) os = Inr its'"
    and "it_name h = None \<or> it_name h = Some d"
    and "Opt_a d \<notin> set os"
  shows "resolve_idle_time its' d = Some (current_idle_time (it_idle_time h) os)"
  using assms
proof (induction "h # rest" os arbitrary: h rule: getopt_loop.induct)
  case (3 n os)
  let ?new = "\<lparr>it_name = Some n, it_idle_time = DEFAULT_IDLE_TIME\<rparr>"
  have "getopt_loop ([?new] @ (h # rest)) os = Inr its'" using 3 by simp
  moreover have "n \<noteq> d" using 3 by auto
  ultimately obtain front' where "its' = front' @ (h # rest)"
    "\<forall>it \<in> set front'. it_name it \<noteq> None \<and> it_name it \<noteq> Some d"
    using getopt_loop_skip[of "[?new]" "h # rest" os its' d] 3(4) by auto
  then show ?case using 3(3) by (simp add: resolve_skip)
next
  case (4 v os)
  then show ?case by simp
qed auto

lemma getopt_loop_shape:
  assumes "getopt_loop (front @ [dflt]) os = Inr its'"
    and "\<forall>it \<in> set front. it_name it \<noteq> None"
  shows "\<exists>front'. its' = front' @ [if front = [] then dflt\<lparr>it_idle_time := current_idle_time (it_idle_time dflt) os\<rparr> else dflt] \<and>
           (\<forall>it \<in> set front'. it_name it \<noteq> None) \<and>
           it_name ` set front' = it_name ` set front \<union> {Some n | n. Opt_a n \<in> set os}"
  using assms
proof (induction os arbitrary: front dflt)
  case Nil
  then show ?case by auto
next
  case (Cons x os)
  show ?case
  proof (cases x)
    case (Opt_a n)
    let ?new = "\<lparr>it_name = Some n, it_idle_time = DEFAULT_IDLE_TIME\<rparr>"
    have "getopt_loop ((?new # front) @ [dflt]) os = Inr its'"
      using Cons.prems Opt_a by simp
    from Cons.IH[OF this] Cons.prems(2) Opt_a show ?thesis by auto
  next
    case (Opt_i v)
    show ?thesis
    proof (cases front)
      case Nil
      have "getopt_loop ([] @ [dflt\<lparr>it_idle_time := v\<rparr>]) os = Inr its'"
        using Cons.prems Opt_i Nil by simp
      from Cons.IH[OF this] Opt_i Nil show ?thesis by auto
    next
      case (Cons h t)
      have "getopt_loop ((h\<lparr>it_idle_time := v\<rparr> # t) @ [dflt]) os = Inr its'"
        using Cons.prems Opt_i Cons by simp
      from Cons.IH[OF this] Cons.prems(2) Opt_i Cons show ?thesis by auto
    qed
  next
    case (Opt_l f)
    have "getopt_loop (front @ [dflt]) os = Inr its'"
      using Cons.prems Opt_l by simp
    from Cons.IH[OF this Cons.prems(2)] Opt_l show ?thesis by auto
  next
    case Opt_d
    have "getopt_loop (front @ [dflt]) os = Inr its'"
      using Cons.prems Opt_d by simp
    from Cons.IH[OF this Cons.prems(2)] Opt_d show ?thesis by auto
  qed (use Cons.prems in auto)
qed

lemma resolve_find:
  assumes "\<forall>it \<in> set named. it_name it \<noteq> None" and "it_name dflt = None"
  shows "resolve_idle_time (named @ [dflt]) d =
           Some (case find (\<lambda>it. it_name it = Some d) named of
                   Some it \<Rightarrow> it_idle_time it | None \<Rightarrow> it_idle_time dflt)"
  using assms by (induction named) auto

text \<open>
  C3, as stated, fails: the default entry is created with \<^verbatim>\<open>DEFAULT_IDLE_TIME\<close>, which is 60,
  and a \<^verbatim>\<open>-i\<close> given before any \<^verbatim>\<open>-a\<close> overwrites it. With no option a drive resolves to 60,
  with \<^verbatim>\<open>-i 300\<close> to 300; neither is 600.
\<close>

theorem default_entry_counterexample:
  "process_options [] = Inr [\<lparr>it_name = None, it_idle_time = 60\<rparr>] \<and>
   resolve_idle_time [\<lparr>it_name = None, it_idle_time = 60\<rparr>] (drive_name 0) = Some 60 \<and>
   process_options [Opt_i 300] = Inr [\<lparr>it_name = None, it_idle_time = 300\<rparr>] \<and>
   resolve_idle_time [\<lparr>it_name = None, it_idle_time = 300\<rparr>] (drive_name 0) = Some 300"
  by (simp add: process_options_def DEFAULT_IDLE_TIME_def)

text \<open>
  C3, amended: when the options are processed without leaving \<^verbatim>\<open>main\<close>, the table ends
  with the default entry (name absent), created before any entry of the command line; every
  entry in front of it has a name. The default entry's idle time is \<^verbatim>\<open>DEFAULT_IDLE_TIME\<close>
  unless \<^verbatim>\<open>-i\<close> options precede the first \<^verbatim>\<open>-a\<close>, the last of which then sets it, and every
  drive that matches no named entry resolves to it.
\<close>

theorem default_entry:
  assumes "process_options opts = Inr it_root"
  shows "\<exists>named. it_root = named @ [\<lparr>it_name = None, it_idle_time = current_idle_time DEFAULT_IDLE_TIME opts\<rparr>] \<and>
           (\<forall>it \<in> set named. it_name it \<noteq> None) \<and>
           ((\<forall>it \<in> set named. it_name it \<noteq> Some d) \<longrightarrow>
              resolve_idle_time it_root d = Some (current_idle_time DEFAULT_IDLE_TIME opts))"
proof -
  let ?d0 = "\<lparr>it_name = None, it_idle_time = DEFAULT_IDLE_TIME\<rparr>"
  have "getopt_loop ([] @ [?d0]) opts = Inr it_root"
    using assms by (simp add: process_options_def)
  from getopt_loop_shape[OF this] obtain named where
    n: "it_root = named @ [\<lparr>it_name = None, it_idle_time = current_idle_time DEFAULT_IDLE_TIME opts\<rparr>]"
       "\<forall>it \<in> set named. it_name it \<noteq> None"
    by auto
  have "resolve_idle_time it_root d = Some (current_idle_time DEFAULT_IDLE_TIME opts)"
    if "\<forall>it \<in> set named. it_name it \<noteq> Some d"
  proof -
    have "find (\<lambda>it. it_name it = Some d) named = None"
      using that by (simp add: find_None_iff)
    then show ?thesis using resolve_find[OF n(2), of _ d] n(1) by simp
  qed
  then show ?thesis using n by blast
qed

theorem default_entry_witness:
  "process_options [Opt_i 300, Opt_a ''sdb'', Opt_i 120] =
     Inr [\<lparr>it_name = Some ''sdb'', it_idle_time = 120\<rparr>, \<lparr>it_name = None, it_idle_time = 300\<rparr>] \<and>
   resolve_idle_time
     [\<lparr>it_name = Some ''sdb'', it_idle_time = 120\<rparr>, \<lparr>it_name = None, it_idle_time = 300\<rparr>]
     ''sdc'' = Some 300"
  using default_entry [of "[Opt_i 300, Opt_a ''sdb'', Opt_i 120]"
      "[\<lparr>it_name = Some ''sdb'', it_idle_time = 120\<rparr>, \<lparr>it_name = None, it_idle_time = 300\<rparr>]"
      "''sdc''"]
  by (simp add: process_options_def DEFAULT_IDLE_TIME_def)

text \<open>
  C4: on a table built from the command line, a drive resolves to the idle time of the
  first named entry whose name equals the drive's name, and to that of the default entry,
  which comes after every named entry, when there is none. The entry of the last \<^verbatim>\<open>-a\<close>
  given for a name is the one found, with the idle time its own \<^verbatim>\<open>-i\<close> options gave it.
  Resolution always yields a value.
\<close>

theorem policy_resolution:
  assumes "process_options opts = Inr it_root"
  shows "(\<exists>named dflt. it_root = named @ [dflt] \<and> it_name dflt = None \<and>
            (\<forall>it \<in> set named. it_name it \<noteq> None) \<and>
            resolve_idle_time it_root d =
              Some (case find (\<lambda>it. it_name it = Some d) named of
                      Some it \<Rightarrow> it_idle_time it | None \<Rightarrow> it_idle_time dflt)) \<and>
         (opts = pre @ Opt_a d # post \<and> Opt_a d \<notin> set post \<longrightarrow>
            resolve_idle_time it_root d = Some (current_idle_time DEFAULT_IDLE_TIME post)) \<and>
         resolve_idle_time it_root d \<noteq> None"
proof -
  let ?d0 = "\<lparr>it_name = None, it_idle_time = DEFAULT_IDLE_TIME\<rparr>"
  have g: "getopt_loop ([] @ [?d0]) opts = Inr it_root"
    using assms by (simp add: process_options_def)
  from getopt_loop_shape[OF g] obtain named dflt where
    n: "it_root = named @ [dflt]" "it_name dflt = None"
       "\<forall>it \<in> set named. it_name it \<noteq> None"
    by auto
  have r: "resolve_idle_time it_root d =
              Some (case find (\<lambda>it. it_name it = Some d) named of
                      Some it \<Rightarrow> it_idle_time it | None \<Rightarrow> it_idle_time dflt)"
    using resolve_find[OF n(3) n(2)] n(1) by simp
  have "resolve_idle_time it_root d = Some (current_idle_time DEFAULT_IDLE_TIME post)"
    if o: "opts = pre @ Opt_a d # post" and p: "Opt_a d \<notin> set post"
  proof -
    let ?new = "\<lparr>it_name = Some d, it_idle_time = DEFAULT_IDLE_TIME\<rparr>"
    obtain its1 where "getopt_loop [?d0] pre = Inr its1"
      and "getopt_loop (?new # its1) post = Inr it_root"
      using g unfolding o by (auto simp: getopt_loop_append split: sum.splits)
    from getopt_loop_current[OF this(2) _ p] show ?thesis by simp
  qed
  with n r show ?thesis by blast
qed

theorem policy_resolution_witness:
  "process_options [Opt_a ''sdb'', Opt_i 100, Opt_a ''sdb'', Opt_i 120, Opt_a ''sd'', Opt_i 5] =
     Inr [\<lparr>it_name = Some ''sd'', it_idle_time = 5\<rparr>, \<lparr>it_name = Some ''sdb'', it_idle_time = 120\<rparr>,
          \<lparr>it_name = Some ''sdb'', it_idle_time = 100\<rparr>, \<lparr>it_name = None, it_idle_time = 60\<rparr>] \<and>
   resolve_idle_time
     [\<lparr>it_name = Some ''sd'', it_idle_time = 5\<rparr>, \<lparr>it_name = Some ''sdb'', it_idle_time = 120\<rparr>,
      \<lparr>it_name = Some ''sdb'', it_idle_time = 100\<rparr>, \<lparr>it_name = None, it_idle_time = 60\<rparr>]
     ''sdb'' = Some 120"
  using policy_resolution [of "[Opt_a ''sdb'', Opt_i 100, Opt_a ''sdb'', Opt_i 120, Opt_a ''sd'', Opt_i 5]"
      "[\<lparr>it_name = Some ''sd'', it_idle_time = 5\<rparr>, \<lparr>it_name = Some ''sdb'', it_idle_time = 120\<rparr>,
        \<lparr>it_name = Some ''sdb'', it_idle_time = 100\<rparr>, \<lparr>it_name = None, it_idle_time = 60\<rparr>]"
      "''sdb''" "[Opt_a ''sdb'', Opt_i 100]" "[Opt_i 120, Opt_a ''sd'', Opt_i 5]"]
  by (simp add: process_options_def DEFAULT_IDLE_TIME_def)

section \<open>One pass of the loop body\<close>

lemma open_error_log_printf: "a \<in> set (open_error_log fn nm err) \<Longrightarrow> is_printf a"
  by (auto simp: open_error_log_def split: if_splits)

lemma ioctl_error_log_printf: "a \<in> set (ioctl_error_log fn nm err) \<Longrightarrow> is_printf a"
  by (auto simp: ioctl_error_log_def split: if_splits)

lemma ata_check_power_mode_printf:
  "a \<in> set (snd (ata_check_power_mode nm x)) \<Longrightarrow> is_printf a"
  by (auto simp: ata_check_power_mode_def split: option.splits
      dest: open_error_log_printf ioctl_error_log_printf)

lemma ata_set_standby_mode_printf:
  "a \<in> set (snd (ata_set_standby_mode nm x)) \<Longrightarrow> is_printf a"
  by (auto simp: ata_set_standby_mode_def Let_def split: option.splits if_splits
      dest: open_error_log_printf ioctl_error_log_printf)

lemma filter_printf_log: "(\<And>a. a \<in> set log \<Longrightarrow> is_printf a) \<Longrightarrow> filter (\<lambda>a. \<not> is_printf a) log = []"
  by (induction log) auto

lemma count_printf_log:
  "(\<And>a. a \<in> set log \<Longrightarrow> is_printf a) \<Longrightarrow> \<not> is_printf c \<Longrightarrow> count_list log c = 0"
  by (induction log) auto

lemma get_diskstats_name: "get_diskstats nm dss = Some ds \<Longrightarrow> ds_name ds = nm"
  by (induction dss) (auto split: if_splits)

lemma get_diskstats_mem: "get_diskstats nm dss = Some ds \<Longrightarrow> ds \<in> set dss"
  by (induction dss) (auto split: if_splits)

lemma get_put_same:
  "get_diskstats nm dss = Some ds \<Longrightarrow> ds_name ds' = nm \<Longrightarrow>
   get_diskstats nm (put_diskstats nm ds' dss) = Some ds'"
  by (induction dss) (auto split: if_splits)

lemma get_put_other:
  "nm' \<noteq> nm \<Longrightarrow> ds_name ds' = nm \<Longrightarrow>
   get_diskstats nm' (put_diskstats nm ds' dss) = get_diskstats nm' dss"
  by (induction dss) auto

lemma names_put:
  "ds_name ds' = nm \<Longrightarrow> map ds_name (put_diskstats nm ds' dss) = map ds_name dss"
  by (induction dss) auto

lemma set_put: "set (put_diskstats nm ds' dss) \<subseteq> insert ds' (set dss)"
  by (induction dss) auto

lemma probe_read:
  assumes "counters_read e r w"
  shows "probe its nm e s =
     (case update_stats its nm e (ata_power_mode_string (fst (ata_check_power_mode nm (ata e)))) s of
        (f, s', acts) \<Rightarrow>
          (f, s', [GetDevicePowerState nm, GetDriveTypeA (nm @ [backslash]),
                   Call_ata_check_power_mode nm] @ snd (ata_check_power_mode nm (ata e)) @
                  [IOCTL_DISK_PERFORMANCE nm] @ acts))"
  using assms by (simp add: probe_def counters_read_def case_prod_unfold Let_def)

lemma probe_not_read_count:
  assumes "\<not> counters_read e (perf_ReadCount e) (perf_WriteCount e)"
  shows "count_list (snd (snd (probe its nm e s))) (Call_ata_set_standby_mode d) = 0"
  using assms
  by (auto simp: probe_def counters_read_def case_prod_unfold Let_def
        count_printf_log ata_check_power_mode_printf split: option.splits)

lemma update_stats_count:
  "count_list (snd (snd (update_stats its nm e mode s))) (Call_ata_set_standby_mode d) =
     (if nm = d \<and> (case get_diskstats nm (ds_root s) of None \<Rightarrow> False | Some ds \<Rightarrow> spins_down e ds)
      then 1 else 0)"
  by (simp add: update_stats_def spins_down_def Let_def count_printf_log
        ata_set_standby_mode_printf get_diskstats_name split: option.splits)

lemma probe_standby_count:
  "count_list (snd (snd (probe its nm e s))) (Call_ata_set_standby_mode d) =
     (if nm = d \<and> counters_read e (perf_ReadCount e) (perf_WriteCount e) \<and>
         (case get_diskstats nm (ds_root s) of None \<Rightarrow> False | Some ds \<Rightarrow> spins_down e ds)
      then 1 else 0)"
proof (cases "counters_read e (perf_ReadCount e) (perf_WriteCount e)")
  case True
  have "count_list (snd (ata_check_power_mode nm (ata e))) (Call_ata_set_standby_mode d) = 0"
    by (simp add: count_printf_log ata_check_power_mode_printf)
  then show ?thesis using True update_stats_count[of its nm e _ s d]
    by (simp add: probe_read[OF True] case_prod_unfold)
next
  case False
  then show ?thesis by (simp add: probe_not_read_count)
qed

lemma put_get_id: "get_diskstats nm dss = Some ds \<Longrightarrow> put_diskstats nm ds dss = dss"
  by (induction dss) (auto split: if_splits)

lemma update_stats_known:
  assumes "get_diskstats nm (ds_root s) = Some ds"
  shows "fst (update_stats its nm e mode s) = Continue"
    and "fst (snd (update_stats its nm e mode s)) =
           s\<lparr>ds_root := put_diskstats nm (after_read e ds) (ds_root s)\<rparr>"
  using assms put_get_id[OF assms]
  by (simp_all add: update_stats_def after_read_def spins_down_def Let_def)

lemma probe_read_known:
  assumes "counters_read e r w" and "get_diskstats nm (ds_root s) = Some ds"
  shows "fst (probe its nm e s) = Continue"
    and "fst (snd (probe its nm e s)) =
           s\<lparr>ds_root := put_diskstats nm (after_read e ds) (ds_root s)\<rparr>"
  using update_stats_known[OF assms(2)]
  by (simp_all add: probe_read[OF assms(1)] case_prod_unfold)

lemma update_stats_get_other:
  assumes "nm' \<noteq> nm"
  shows "get_diskstats nm' (ds_root (fst (snd (update_stats its nm e mode s)))) =
           get_diskstats nm' (ds_root s)"
  using assms
  by (simp add: update_stats_def Let_def get_put_other get_diskstats_name split: option.splits)

lemma probe_get_other:
  assumes "nm' \<noteq> nm"
  shows "get_diskstats nm' (ds_root (fst (snd (probe its nm e s)))) =
           get_diskstats nm' (ds_root s)"
proof (cases "counters_read e (perf_ReadCount e) (perf_WriteCount e)")
  case True
  show ?thesis using update_stats_get_other[OF assms]
    by (simp add: probe_read[OF True] case_prod_unfold)
next
  case False
  then show ?thesis using assms
    by (auto simp: probe_def counters_read_def case_prod_unfold Let_def get_put_other
          get_diskstats_name split: option.splits)
qed

lemma run_probes_length: "length (snd (run_probes its es s)) = length es"
  by (induction es arbitrary: s) (auto simp: case_prod_unfold)

lemma run_unchanged_count:
  assumes "get_diskstats d (ds_root s) = Some ds"
    and "\<forall>(nm, e) \<in> set es. nm = d \<longrightarrow> counters_read e (reads ds) (writes ds)"
    and "k < length es"
  shows "count_list (snd (run_probes its es s) ! k) (Call_ata_set_standby_mode d) =
           (if \<not> spun_down ds \<and> ds_idle_time ds \<noteq> 0 \<and> fst (es ! k) = d \<and>
               ds_idle_time ds \<le> now (snd (es ! k)) - last_io ds \<and>
               (\<forall>j < k. fst (es ! j) = d \<longrightarrow> \<not> ds_idle_time ds \<le> now (snd (es ! j)) - last_io ds)
            then 1 else 0)"
  using assms
proof (induction es arbitrary: s ds k)
  case Nil
  then show ?case by simp
next
  case (Cons x es)
  obtain nm e where x: "x = (nm, e)" by (cases x)
  define s' where "s' = fst (snd (probe its nm e s))"
  define acts where "acts = snd (snd (probe its nm e s))"
  have tr: "snd (run_probes its (x # es) s) = acts # snd (run_probes its es s')"
    by (simp add: x s'_def acts_def case_prod_unfold)
  have rest: "\<forall>(nm, e) \<in> set es. nm = d \<longrightarrow> counters_read e (reads ds) (writes ds)"
    using Cons.prems(2) by simp
  show ?case
  proof (cases "nm = d")
    case False
    have g: "get_diskstats d (ds_root s') = Some ds"
      using False Cons.prems(1) by (simp add: s'_def probe_get_other)
    have c0: "count_list acts (Call_ata_set_standby_mode d) = 0"
      using False by (simp add: acts_def probe_standby_count)
    show ?thesis
    proof (cases k)
      case 0
      then show ?thesis using c0 False unfolding tr by (simp add: x)
    next
      case (Suc k')
      then have "k' < length es" using Cons.prems(3) by simp
      from Cons.IH[OF g rest this] show ?thesis
        using False unfolding tr by (simp add: x Suc All_less_Suc2)
    qed
  next
    case True
    have cr: "counters_read e (reads ds) (writes ds)"
      using Cons.prems(2) True by (simp add: x)
    then have cr': "counters_read e (perf_ReadCount e) (perf_WriteCount e)"
      and same: "reads ds = perf_ReadCount e" "writes ds = perf_WriteCount e"
      by (simp_all add: counters_read_def)
    have g0: "get_diskstats nm (ds_root s) = Some ds" using Cons.prems(1) True by simp
    have c: "count_list acts (Call_ata_set_standby_mode d) = (if spins_down e ds then 1 else 0)"
      using True cr' g0 by (simp add: acts_def probe_standby_count)
    have s': "s' = s\<lparr>ds_root := put_diskstats nm (after_read e ds) (ds_root s)\<rparr>"
      using probe_read_known(2)[OF cr g0] by (simp add: s'_def)
    have nm': "ds_name (after_read e ds) = nm"
      using get_diskstats_name[OF g0] by (simp add: after_read_def)
    have g: "get_diskstats d (ds_root s') = Some (after_read e ds)"
      using get_put_same[OF g0 nm'] True by (simp add: s')
    have sd: "spins_down e ds \<longleftrightarrow>
        \<not> spun_down ds \<and> ds_idle_time ds \<noteq> 0 \<and> ds_idle_time ds \<le> now e - last_io ds"
      using same by (simp add: spins_down_def)
    show ?thesis
    proof (cases k)
      case 0
      then show ?thesis using c True sd unfolding tr by (simp add: x)
    next
      case (Suc k')
      then have k': "k' < length es" using Cons.prems(3) by simp
      have rest': "\<forall>(nm, e') \<in> set es. nm = d \<longrightarrow>
          counters_read e' (reads (after_read e ds)) (writes (after_read e ds))"
        using rest same by (simp add: after_read_def)
      from Cons.IH[OF g rest' k'] show ?thesis
        using True sd same unfolding tr
        by (auto simp: x Suc All_less_Suc2 after_read_def split: if_splits)
    qed
  qed
qed

lemma run_unchanged_total:
  assumes "get_diskstats d (ds_root s) = Some ds"
    and "\<forall>(nm, e) \<in> set es. nm = d \<longrightarrow> counters_read e (reads ds) (writes ds)"
  shows "count_list (concat (snd (run_probes its es s))) (Call_ata_set_standby_mode d) =
           (if \<not> spun_down ds \<and> ds_idle_time ds \<noteq> 0 \<and>
               (\<exists>(nm, e) \<in> set es. nm = d \<and> ds_idle_time ds \<le> now e - last_io ds)
            then 1 else 0)"
  using assms
proof (induction es arbitrary: s ds)
  case Nil
  then show ?case by simp
next
  case (Cons x es)
  obtain nm e where x: "x = (nm, e)" by (cases x)
  define s' where "s' = fst (snd (probe its nm e s))"
  define acts where "acts = snd (snd (probe its nm e s))"
  have tr: "snd (run_probes its (x # es) s) = acts # snd (run_probes its es s')"
    by (simp add: x s'_def acts_def case_prod_unfold)
  have rest: "\<forall>(nm, e) \<in> set es. nm = d \<longrightarrow> counters_read e (reads ds) (writes ds)"
    using Cons.prems(2) by simp
  show ?case
  proof (cases "nm = d")
    case False
    have g: "get_diskstats d (ds_root s') = Some ds"
      using False Cons.prems(1) by (simp add: s'_def probe_get_other)
    have c0: "count_list acts (Call_ata_set_standby_mode d) = 0"
      using False by (simp add: acts_def probe_standby_count)
    from Cons.IH[OF g rest] show ?thesis
      using False c0 unfolding tr by (simp add: x)
  next
    case True
    have cr: "counters_read e (reads ds) (writes ds)"
      using Cons.prems(2) True by (simp add: x)
    then have cr': "counters_read e (perf_ReadCount e) (perf_WriteCount e)"
      and same: "reads ds = perf_ReadCount e" "writes ds = perf_WriteCount e"
      by (simp_all add: counters_read_def)
    have g0: "get_diskstats nm (ds_root s) = Some ds" using Cons.prems(1) True by simp
    have c: "count_list acts (Call_ata_set_standby_mode d) = (if spins_down e ds then 1 else 0)"
      using True cr' g0 by (simp add: acts_def probe_standby_count)
    have s': "s' = s\<lparr>ds_root := put_diskstats nm (after_read e ds) (ds_root s)\<rparr>"
      using probe_read_known(2)[OF cr g0] by (simp add: s'_def)
    have nm': "ds_name (after_read e ds) = nm"
      using get_diskstats_name[OF g0] by (simp add: after_read_def)
    have g: "get_diskstats d (ds_root s') = Some (after_read e ds)"
      using get_put_same[OF g0 nm'] True by (simp add: s')
    have sd: "spins_down e ds \<longleftrightarrow>
        \<not> spun_down ds \<and> ds_idle_time ds \<noteq> 0 \<and> ds_idle_time ds \<le> now e - last_io ds"
      using same by (simp add: spins_down_def)
    have rest': "\<forall>(nm, e') \<in> set es. nm = d \<longrightarrow>
        counters_read e' (reads (after_read e ds)) (writes (after_read e ds))"
      using rest same by (simp add: after_read_def)
    from Cons.IH[OF g rest'] show ?thesis
      using True sd same c unfolding tr
      by (auto simp: x after_read_def split: if_splits)
  qed
qed

text \<open>
  C1: let the record of drive \<open>d\<close> have a positive idle time, and let every pass for \<open>d\<close> in a
  sequence of passes (those of other drives are arbitrary) reach the comparison and read
  the stored counters. Then a pass sends the standby command for \<open>d\<close> exactly when the drive was
  not spun down at the start and the pass is the first one for \<open>d\<close> whose time satisfies
  \<open>now - last_io \<ge> idle_time\<close>, and it sends it once. So the whole sequence sends one
  command if such a pass exists and none otherwise, and none at all once the drive is
  marked spun down.
\<close>

theorem idle_spindown_exactly_once:
  assumes "get_diskstats d (ds_root s) = Some ds"
    and "0 < ds_idle_time ds"
    and "\<forall>(nm, e) \<in> set es. nm = d \<longrightarrow> counters_read e (reads ds) (writes ds)"
  shows "(\<forall>k < length es.
            count_list (snd (run_probes its es s) ! k) (Call_ata_set_standby_mode d) =
              (if \<not> spun_down ds \<and> fst (es ! k) = d \<and>
                  ds_idle_time ds \<le> now (snd (es ! k)) - last_io ds \<and>
                  (\<forall>j < k. fst (es ! j) = d \<longrightarrow>
                     \<not> ds_idle_time ds \<le> now (snd (es ! j)) - last_io ds)
               then 1 else 0)) \<and>
         count_list (concat (snd (run_probes its es s))) (Call_ata_set_standby_mode d) =
           (if \<not> spun_down ds \<and>
               (\<exists>(nm, e) \<in> set es. nm = d \<and> ds_idle_time ds \<le> now e - last_io ds)
            then 1 else 0)"
proof -
  have nz: "ds_idle_time ds \<noteq> 0" using assms(2) by simp
  show ?thesis
    using run_unchanged_count[OF assms(1) assms(3), of _ its]
      run_unchanged_total[OF assms(1) assms(3), of its] nz
    by simp
qed

theorem idle_spindown_exactly_once_witness:
  "get_diskstats (drive_name 1) (ds_root sample_state) = Some sample_disk \<and>
   0 < ds_idle_time sample_disk \<and>
   list_all (\<lambda>(nm, e). counters_read e (reads sample_disk) (writes sample_disk))
     [(drive_name 1, awake_env 30 100 50), (drive_name 1, awake_env 60 100 50),
      (drive_name 1, awake_env 90 100 50), (drive_name 1, awake_env 120 100 50)] \<and>
   map (\<lambda>acts. count_list acts (Call_ata_set_standby_mode (drive_name 1)))
     (snd (run_probes [\<lparr>it_name = None, it_idle_time = 90\<rparr>]
        [(drive_name 1, awake_env 30 100 50), (drive_name 1, awake_env 60 100 50),
         (drive_name 1, awake_env 90 100 50), (drive_name 1, awake_env 120 100 50)]
        sample_state)) = [0, 0, 1, 0]"
  using idle_spindown_exactly_once [of "drive_name 1" sample_state sample_disk
      "[(drive_name 1, awake_env 30 100 50), (drive_name 1, awake_env 60 100 50),
        (drive_name 1, awake_env 90 100 50), (drive_name 1, awake_env 120 100 50)]"
      "[\<lparr>it_name = None, it_idle_time = 90\<rparr>]"]
  by (simp add: sample_state_def sample_disk_def awake_env_def counters_read_def probe_def
      update_stats_def ata_check_power_mode_def ata_set_standby_mode_def Let_def)

section \<open>The power-state short circuit\<close>

lemma probe_asleep:
  assumes "open_error e = None" and "\<not> power_r e \<or> \<not> power_fOn e"
  shows "probe its nm e s =
     (Continue,
      s\<lparr>ds_root := (case get_diskstats nm (ds_root s) of
                       None \<Rightarrow> ds_root s
                     | Some ds \<Rightarrow> put_diskstats nm (ds\<lparr>spun_down := True\<rparr>) (ds_root s))\<rparr>,
      [GetDevicePowerState nm, Printf ''probing %s: asleep'' [Arg_s nm]])"
  using assms by (auto simp: probe_def)

lemma asleep_get:
  "get_diskstats nm (case get_diskstats nm dss of
                       None \<Rightarrow> dss
                     | Some ds \<Rightarrow> put_diskstats nm (ds\<lparr>spun_down := True\<rparr>) dss) =
     map_option (\<lambda>ds. ds\<lparr>spun_down := True\<rparr>) (get_diskstats nm dss)"
  by (auto simp: get_put_same get_diskstats_name split: option.splits)

lemma asleep_names:
  "map ds_name (case get_diskstats nm dss of
                       None \<Rightarrow> dss
                     | Some ds \<Rightarrow> put_diskstats nm (ds\<lparr>spun_down := True\<rparr>) dss) =
     map ds_name dss"
  by (auto simp: names_put get_diskstats_name split: option.splits)

text \<open>
  C2, as stated, fails: a drive that is reported powered off the first time it is seen
  gets no record. The branch only writes through the pointer \<^verbatim>\<open>get_diskstats\<close> returns,
  under \<^verbatim>\<open>if (ds != NULL)\<close>; with an empty list the pass leaves the list empty.
\<close>

theorem powered_off_first_seen_counterexample:
  "probe [\<lparr>it_name = None, it_idle_time = 90\<rparr>] (drive_name 1)
     ((awake_env 0 100 50)\<lparr>power_fOn := False\<rparr>) initial_state =
     (Continue, initial_state,
      [GetDevicePowerState (drive_name 1), Printf ''probing %s: asleep'' [Arg_s (drive_name 1)]]) \<and>
   ds_root initial_state = [] \<and>
   get_diskstats (drive_name 1) (ds_root initial_state) = None"
  by (simp add: probe_def awake_env_def initial_state_def)

text \<open>
  C2, amended: when the power probe reports the drive powered off, the pass marks the
  drive's record spun down if there is one and creates none otherwise (the names in the
  list stay the same); it continues with the next drive, and the only call it has made is
  the power probe: no counters are read and no command is sent.
\<close>

theorem powered_off_short_circuit:
  assumes "open_error e = None" and "power_r e" and "\<not> power_fOn e"
  shows "fst (probe its nm e s) = Continue \<and>
         get_diskstats nm (ds_root (fst (snd (probe its nm e s)))) =
           map_option (\<lambda>ds. ds\<lparr>spun_down := True\<rparr>) (get_diskstats nm (ds_root s)) \<and>
         map ds_name (ds_root (fst (snd (probe its nm e s)))) = map ds_name (ds_root s) \<and>
         filter (\<lambda>a. \<not> is_printf a) (snd (snd (probe its nm e s))) = [GetDevicePowerState nm]"
  using assms by (simp add: probe_asleep asleep_get asleep_names)

theorem powered_off_short_circuit_witness:
  "open_error ((awake_env 30 100 50)\<lparr>power_fOn := False\<rparr>) = None \<and>
   power_r ((awake_env 30 100 50)\<lparr>power_fOn := False\<rparr>) \<and>
   \<not> power_fOn ((awake_env 30 100 50)\<lparr>power_fOn := False\<rparr>) \<and>
   get_diskstats (drive_name 1)
     (ds_root (fst (snd (probe [\<lparr>it_name = None, it_idle_time = 90\<rparr>] (drive_name 1)
        ((awake_env 30 100 50)\<lparr>power_fOn := False\<rparr>) sample_state)))) =
     Some (sample_disk\<lparr>spun_down := True\<rparr>) \<and>
   filter (\<lambda>a. \<not> is_printf a)
     (snd (snd (probe [\<lparr>it_name = None, it_idle_time = 90\<rparr>] (drive_name 1)
        ((awake_env 30 100 50)\<lparr>power_fOn := False\<rparr>) sample_state))) =
     [GetDevicePowerState (drive_name 1)]"
  using powered_off_short_circuit [of "(awake_env 30 100 50)\<lparr>power_fOn := False\<rparr>"
      "[\<lparr>it_name = None, it_idle_time = 90\<rparr>]" "drive_name 1" sample_state]
  by (simp add: awake_env_def sample_state_def sample_disk_def)

text \<open>
  C9: a power probe whose call fails is handled as a drive reported powered off. The pass
  is the same as the one for the answer "succeeded, off": an existing record is marked
  spun down, no record is created, and the only call made is the power probe.
\<close>

theorem probe_failure_as_powered_off:
  assumes "open_error e = None" and "\<not> power_r e"
  shows "probe its nm e s = probe its nm (e\<lparr>power_r := True, power_fOn := False\<rparr>) s \<and>
         fst (probe its nm e s) = Continue \<and>
         get_diskstats nm (ds_root (fst (snd (probe its nm e s)))) =
           map_option (\<lambda>ds. ds\<lparr>spun_down := True\<rparr>) (get_diskstats nm (ds_root s)) \<and>
         map ds_name (ds_root (fst (snd (probe its nm e s)))) = map ds_name (ds_root s) \<and>
         filter (\<lambda>a. \<not> is_printf a) (snd (snd (probe its nm e s))) = [GetDevicePowerState nm]"
  using assms by (simp add: probe_asleep asleep_get asleep_names)

theorem probe_failure_as_powered_off_witness:
  "open_error ((awake_env 30 100 50)\<lparr>power_r := False\<rparr>) = None \<and>
   \<not> power_r ((awake_env 30 100 50)\<lparr>power_r := False\<rparr>) \<and>
   get_diskstats (drive_name 1)
     (ds_root (fst (snd (probe [\<lparr>it_name = None, it_idle_time = 90\<rparr>] (drive_name 1)
        ((awake_env 30 100 50)\<lparr>power_r := False\<rparr>) sample_state)))) =
     Some (sample_disk\<lparr>spun_down := True\<rparr>) \<and>
   ds_root (fst (snd (probe [\<lparr>it_name = None, it_idle_time = 90\<rparr>] (drive_name 2)
        ((awake_env 30 100 50)\<lparr>power_r := False\<rparr>) sample_state))) = [sample_disk]"
  using probe_failure_as_powered_off [of "(awake_env 30 100 50)\<lparr>power_r := False\<rparr>"
      "[\<lparr>it_name = None, it_idle_time = 90\<rparr>]" "drive_name 1" sample_state]
  by (simp add: awake_env_def sample_state_def sample_disk_def probe_def drive_name_def)

section \<open>Activity and spin-down\<close>

text \<open>
  C6: when the counters read differ from the stored ones in any way (the witness takes a
  read counter that went down from 100 to 3), the record gets the new counters,
  \<^verbatim>\<open>last_io\<close> is the time of the pass, \<^verbatim>\<open>spun_down\<close> is cleared, \<^verbatim>\<open>spinup\<close> is the time of
  the pass if the record was marked spun down and is kept otherwise, and the pass sends no
  standby command to any drive.
\<close>

theorem activity_detected:
  assumes "counters_read e r w"
    and "get_diskstats nm (ds_root s) = Some ds"
    and "reads ds \<noteq> r \<or> writes ds \<noteq> w"
  shows "get_diskstats nm (ds_root (fst (snd (probe its nm e s)))) =
           Some (ds\<lparr>spinup := (if spun_down ds then now e else spinup ds),
                    reads := r, writes := w, last_io := now e, spun_down := False\<rparr>) \<and>
         count_list (snd (snd (probe its nm e s))) (Call_ata_set_standby_mode d) = 0"
proof -
  have rw: "perf_ReadCount e = r" "perf_WriteCount e = w"
    using assms(1) by (simp_all add: counters_read_def)
  have nm': "ds_name (after_read e ds) = nm"
    using get_diskstats_name[OF assms(2)] by (simp add: after_read_def)
  have "get_diskstats nm (ds_root (fst (snd (probe its nm e s)))) = Some (after_read e ds)"
    using get_put_same[OF assms(2) nm'] by (simp add: probe_read_known(2)[OF assms(1,2)])
  moreover have "\<not> spins_down e ds" using assms(3) rw by (auto simp: spins_down_def)
  ultimately show ?thesis using assms(2,3) rw
    by (auto simp: probe_standby_count after_read_def)
qed

theorem activity_detected_witness:
  "counters_read (awake_env 40 3 50) 3 50 \<and>
   get_diskstats (drive_name 1) [sample_disk\<lparr>spun_down := True\<rparr>] =
     Some (sample_disk\<lparr>spun_down := True\<rparr>) \<and>
   reads (sample_disk\<lparr>spun_down := True\<rparr>) \<noteq> 3 \<and>
   get_diskstats (drive_name 1)
     (ds_root (fst (snd (probe [\<lparr>it_name = None, it_idle_time = 90\<rparr>] (drive_name 1)
        (awake_env 40 3 50)
        \<lparr>ds_root = [sample_disk\<lparr>spun_down := True\<rparr>], tried_diskperf = False\<rparr>)))) =
     Some \<lparr>ds_name = drive_name 1, ds_idle_time = 90, last_io = 40, spindown = 0, spinup = 40,
           spun_down = False, reads = 3, writes = 50\<rparr>"
  using activity_detected [of "awake_env 40 3 50" 3 50 "drive_name 1"
      "\<lparr>ds_root = [sample_disk\<lparr>spun_down := True\<rparr>], tried_diskperf = False\<rparr>"
      "sample_disk\<lparr>spun_down := True\<rparr>" "[\<lparr>it_name = None, it_idle_time = 90\<rparr>]"
      "drive_name 1"]
  by (simp add: awake_env_def sample_disk_def counters_read_def)

text \<open>
  C7: when the idle time is reached, the state after the pass does not depend on what
  \<^verbatim>\<open>ata_set_standby_mode\<close> meets or returns (\<open>sb\<close> is arbitrary): the record has
  \<^verbatim>\<open>spindown\<close> set to the time of the pass and \<^verbatim>\<open>spun_down\<close> set. The command is sent once
  in the pass, and not again in any later passes in which the counters of the drive stay
  as stored.
\<close>

theorem standby_result_ignored:
  assumes "counters_read e (reads ds) (writes ds)"
    and "get_diskstats nm (ds_root s) = Some ds"
    and "\<not> spun_down ds" and "ds_idle_time ds \<noteq> 0"
    and "ds_idle_time ds \<le> now e - last_io ds"
    and "\<forall>(nm', e') \<in> set es. nm' = nm \<longrightarrow> counters_read e' (reads ds) (writes ds)"
  shows "fst (snd (probe its nm (e\<lparr>standby := sb\<rparr>) s)) =
           s\<lparr>ds_root := put_diskstats nm (ds\<lparr>spindown := now e, spun_down := True\<rparr>) (ds_root s)\<rparr> \<and>
         get_diskstats nm (ds_root (fst (snd (probe its nm (e\<lparr>standby := sb\<rparr>) s)))) =
           Some (ds\<lparr>spindown := now e, spun_down := True\<rparr>) \<and>
         count_list (snd (snd (probe its nm (e\<lparr>standby := sb\<rparr>) s))) (Call_ata_set_standby_mode nm) = 1 \<and>
         count_list (concat (snd (run_probes its es (fst (snd (probe its nm (e\<lparr>standby := sb\<rparr>) s))))))
           (Call_ata_set_standby_mode nm) = 0"
proof -
  let ?e = "e\<lparr>standby := sb\<rparr>"
  let ?ds = "ds\<lparr>spindown := now e, spun_down := True\<rparr>"
  have cr: "counters_read ?e (reads ds) (writes ds)"
    using assms(1) by (simp add: counters_read_def)
  then have rw: "perf_ReadCount e = reads ds" "perf_WriteCount e = writes ds"
    by (simp_all add: counters_read_def)
  have sd: "spins_down ?e ds" using assms(3,4,5) rw by (simp add: spins_down_def)
  then have ar: "after_read ?e ds = ?ds" using rw by (simp add: after_read_def)
  have st: "fst (snd (probe its nm ?e s)) = s\<lparr>ds_root := put_diskstats nm ?ds (ds_root s)\<rparr>"
    using probe_read_known(2)[OF cr assms(2), of its] by (simp add: ar)
  have nm': "ds_name ?ds = nm" using get_diskstats_name[OF assms(2)] by simp
  have g: "get_diskstats nm (ds_root (fst (snd (probe its nm ?e s)))) = Some ?ds"
    using get_put_same[OF assms(2) nm'] by (simp add: st)
  have c1: "count_list (snd (snd (probe its nm ?e s))) (Call_ata_set_standby_mode nm) = 1"
    using sd cr assms(2) rw by (simp add: probe_standby_count counters_read_def)
  have rest: "\<forall>(nm', e') \<in> set es. nm' = nm \<longrightarrow> counters_read e' (reads ?ds) (writes ?ds)"
    using assms(6) by simp
  have c0: "count_list (concat (snd (run_probes its es (fst (snd (probe its nm ?e s))))))
           (Call_ata_set_standby_mode nm) = 0"
    using run_unchanged_total[OF g rest, of its] by simp
  show ?thesis using st g c1 c0 by simp
qed

theorem standby_result_ignored_witness:
  "counters_read (awake_env 90 100 50) (reads sample_disk) (writes sample_disk) \<and>
   get_diskstats (drive_name 1) (ds_root sample_state) = Some sample_disk \<and>
   \<not> spun_down sample_disk \<and> ds_idle_time sample_disk \<noteq> 0 \<and>
   ds_idle_time sample_disk \<le> now (awake_env 90 100 50) - last_io sample_disk \<and>
   \<not> fst (ata_set_standby_mode (drive_name 1)
           \<lparr>sb_open_error = Some ERROR_ACCESS_DENIED, sb_flushed = False, sb_ioctl_error = None\<rparr>) \<and>
   get_diskstats (drive_name 1)
     (ds_root (fst (snd (probe [\<lparr>it_name = None, it_idle_time = 90\<rparr>] (drive_name 1)
        ((awake_env 90 100 50)\<lparr>standby :=
           \<lparr>sb_open_error = Some ERROR_ACCESS_DENIED, sb_flushed = False, sb_ioctl_error = None\<rparr>\<rparr>)
        sample_state)))) =
     Some (sample_disk\<lparr>spindown := 90, spun_down := True\<rparr>) \<and>
   count_list
     (snd (snd (probe [\<lparr>it_name = None, it_idle_time = 90\<rparr>] (drive_name 1)
        ((awake_env 90 100 50)\<lparr>standby :=
           \<lparr>sb_open_error = Some ERROR_ACCESS_DENIED, sb_flushed = False, sb_ioctl_error = None\<rparr>\<rparr>)
        sample_state)))
     (Call_ata_set_standby_mode (drive_name 1)) = 1"
  using standby_result_ignored [of "awake_env 90 100 50" sample_disk "drive_name 1" sample_state
      "[(drive_name 1, awake_env 100 100 50)]" "[\<lparr>it_name = None, it_idle_time = 90\<rparr>]"
      "\<lparr>sb_open_error = Some ERROR_ACCESS_DENIED, sb_flushed = False, sb_ioctl_error = None\<rparr>"]
  by (simp add: awake_env_def sample_state_def sample_disk_def counters_read_def
      ata_set_standby_mode_def)

section \<open>The ATA power mode\<close>

lemma probe_cases [case_names closed asleep not_fixed perf_failed read]:
  obtains (closed) err where "open_error e = Some err"
  | (asleep) "open_error e = None" "\<not> power_r e \<or> \<not> power_fOn e"
  | (not_fixed) "open_error e = None" "power_r e" "power_fOn e" "drive_type e \<noteq> DRIVE_FIXED"
  | (perf_failed) "open_error e = None" "power_r e" "power_fOn e" "drive_type e = DRIVE_FIXED"
      "perf_result e = 0 \<or> perf_bytesReturned e = 0"
  | (read) "counters_read e (perf_ReadCount e) (perf_WriteCount e)"
  unfolding counters_read_def by (cases "open_error e") (simp, blast)+

lemma probe_closed:
  assumes "open_error e = Some err"
  shows "fst (probe its nm e s) = Break" and "fst (snd (probe its nm e s)) = s"
    and "filter (\<lambda>x. \<not> is_printf x) (snd (snd (probe its nm e s))) = []"
  using assms by (simp_all add: probe_def)

lemma probe_not_fixed:
  assumes "open_error e = None" "power_r e" "power_fOn e" "drive_type e \<noteq> DRIVE_FIXED"
  shows "fst (probe its nm e s) = Continue" and "fst (snd (probe its nm e s)) = s"
    and "filter (\<lambda>x. \<not> is_printf x) (snd (snd (probe its nm e s))) =
           [GetDevicePowerState nm, GetDriveTypeA (nm @ [backslash])]"
  using assms by (simp_all add: probe_def)

lemma filter_ata_log:
  "filter (\<lambda>x. \<not> is_printf x) (snd (ata_check_power_mode nm a)) = []"
  by (simp add: filter_printf_log ata_check_power_mode_printf)

lemma probe_perf_failed:
  assumes "open_error e = None" "power_r e" "power_fOn e" "drive_type e = DRIVE_FIXED"
    "perf_result e = 0 \<or> perf_bytesReturned e = 0"
  shows "fst (probe its nm e s) = Continue"
    and "fst (snd (probe its nm e s)) =
           (if perf_error e = 1 \<and> \<not> tried_diskperf s then s\<lparr>tried_diskperf := True\<rparr> else s)"
    and "filter (\<lambda>x. \<not> is_printf x) (snd (snd (probe its nm e s))) =
           [GetDevicePowerState nm, GetDriveTypeA (nm @ [backslash]),
            Call_ata_check_power_mode nm, IOCTL_DISK_PERFORMANCE nm] @
           (if perf_error e = 1 \<and> \<not> tried_diskperf s then [System ''diskperf -YD''] else [])"
  using assms by (simp_all add: probe_def case_prod_unfold Let_def filter_ata_log)

lemma update_stats_mode:
  "fst (update_stats its nm (e\<lparr>ata := a\<rparr>) m s) = fst (update_stats its nm e m' s) \<and>
   fst (snd (update_stats its nm (e\<lparr>ata := a\<rparr>) m s)) = fst (snd (update_stats its nm e m' s)) \<and>
   filter (\<lambda>x. \<not> is_printf x) (snd (snd (update_stats its nm (e\<lparr>ata := a\<rparr>) m s))) =
     filter (\<lambda>x. \<not> is_printf x) (snd (snd (update_stats its nm e m' s)))"
  by (simp add: update_stats_def Let_def split: option.splits)

text \<open>
  C10: replace whatever \<^verbatim>\<open>ata_check_power_mode\<close> meets by anything else (another register
  value, a failed open, a failed pass-through). The pass leaves the loop body the same way,
  leaves the same state, makes the same calls in the same order and sends the standby
  command as often; only printed lines can differ.
\<close>

theorem power_mode_only_logged:
  "fst (probe its nm (e\<lparr>ata := a\<rparr>) s) = fst (probe its nm e s) \<and>
   fst (snd (probe its nm (e\<lparr>ata := a\<rparr>) s)) = fst (snd (probe its nm e s)) \<and>
   filter (\<lambda>x. \<not> is_printf x) (snd (snd (probe its nm (e\<lparr>ata := a\<rparr>) s))) =
     filter (\<lambda>x. \<not> is_printf x) (snd (snd (probe its nm e s))) \<and>
   count_list (snd (snd (probe its nm (e\<lparr>ata := a\<rparr>) s))) (Call_ata_set_standby_mode d) =
     count_list (snd (snd (probe its nm e s))) (Call_ata_set_standby_mode d)"
proof -
  let ?e = "e\<lparr>ata := a\<rparr>"
  have cnt: "count_list (snd (snd (probe its nm ?e s))) (Call_ata_set_standby_mode d) =
     count_list (snd (snd (probe its nm e s))) (Call_ata_set_standby_mode d)"
    by (simp add: probe_standby_count counters_read_def spins_down_def cong: option.case_cong)
  have "fst (probe its nm ?e s) = fst (probe its nm e s) \<and>
   fst (snd (probe its nm ?e s)) = fst (snd (probe its nm e s)) \<and>
   filter (\<lambda>x. \<not> is_printf x) (snd (snd (probe its nm ?e s))) =
     filter (\<lambda>x. \<not> is_printf x) (snd (snd (probe its nm e s)))"
  proof (cases e rule: probe_cases)
    case (closed err)
    then have "open_error ?e = Some err" by simp
    from probe_closed[OF this] probe_closed[OF closed] show ?thesis by simp
  next
    case asleep
    then have "open_error ?e = None" "\<not> power_r ?e \<or> \<not> power_fOn ?e" by simp_all
    from probe_asleep[OF this] probe_asleep[OF asleep] show ?thesis by simp
  next
    case not_fixed
    then have "open_error ?e = None" "power_r ?e" "power_fOn ?e" "drive_type ?e \<noteq> DRIVE_FIXED"
      by simp_all
    from probe_not_fixed[OF this] probe_not_fixed[OF not_fixed] show ?thesis by simp
  next
    case perf_failed
    then have "open_error ?e = None" "power_r ?e" "power_fOn ?e" "drive_type ?e = DRIVE_FIXED"
      "perf_result ?e = 0 \<or> perf_bytesReturned ?e = 0"
      by simp_all
    from probe_perf_failed[OF this] probe_perf_failed[OF perf_failed] show ?thesis by simp
  next
    case read
    then have read': "counters_read ?e (perf_ReadCount e) (perf_WriteCount e)"
      by (simp add: counters_read_def)
    show ?thesis
      using update_stats_mode[where its = its and nm = nm and e = e and a = a and s = s
          and m = "ata_power_mode_string (fst (ata_check_power_mode nm a))"
          and m' = "ata_power_mode_string (fst (ata_check_power_mode nm (ata e)))"]
      by (simp add: probe_read[OF read] probe_read[OF read'] case_prod_unfold filter_ata_log)
  qed
  then show ?thesis using cnt by simp
qed

theorem power_mode_only_logged_witness:
  "fst (snd (probe [\<lparr>it_name = None, it_idle_time = 90\<rparr>] (drive_name 1)
      ((awake_env 90 100 50)\<lparr>ata :=
         \<lparr>ata_open_error = Some ERROR_ACCESS_DENIED, ata_ioctl_error = None, ata_task_file1 = 0\<rparr>\<rparr>)
      sample_state)) =
   fst (snd (probe [\<lparr>it_name = None, it_idle_time = 90\<rparr>] (drive_name 1)
      (awake_env 90 100 50) sample_state)) \<and>
   fst (ata_check_power_mode (drive_name 1)
      \<lparr>ata_open_error = Some ERROR_ACCESS_DENIED, ata_ioctl_error = None, ata_task_file1 = 0\<rparr>) = - 1 \<and>
   fst (ata_check_power_mode (drive_name 1) (ata (awake_env 90 100 50))) = 255 \<and>
   count_list
     (snd (snd (probe [\<lparr>it_name = None, it_idle_time = 90\<rparr>] (drive_name 1)
        ((awake_env 90 100 50)\<lparr>ata :=
           \<lparr>ata_open_error = Some ERROR_ACCESS_DENIED, ata_ioctl_error = None, ata_task_file1 = 0\<rparr>\<rparr>)
        sample_state)))
     (Call_ata_set_standby_mode (drive_name 1)) = 1"
  using power_mode_only_logged [of "[\<lparr>it_name = None, it_idle_time = 90\<rparr>]" "drive_name 1"
      "\<lparr>ata_open_error = Some ERROR_ACCESS_DENIED, ata_ioctl_error = None, ata_task_file1 = 0\<rparr>"
      "awake_env 90 100 50" sample_state "drive_name 1"]
  by (simp add: awake_env_def sample_state_def sample_disk_def ata_check_power_mode_def
      probe_standby_count counters_read_def spins_down_def)

section \<open>Drives that are never spun down\<close>

lemma after_read_name_idle:
  "ds_name (after_read e ds) = ds_name ds" "ds_idle_time (after_read e ds) = ds_idle_time ds"
  by (simp_all add: after_read_def)

lemma update_stats_idle_zero:
  assumes "resolve_idle_time its d = Some 0"
    and "\<forall>ds \<in> set (ds_root s). ds_name ds = d \<longrightarrow> ds_idle_time ds = 0"
  shows "\<forall>ds \<in> set (ds_root (fst (snd (update_stats its nm e m s)))).
           ds_name ds = d \<longrightarrow> ds_idle_time ds = 0"
proof (cases "get_diskstats nm (ds_root s)")
  case None
  then show ?thesis using assms
    by (auto simp: update_stats_def Let_def split: option.splits)
next
  case (Some ds)
  have "ds \<in> set (ds_root s)" using Some by (rule get_diskstats_mem)
  then have "ds_name (after_read e ds) = d \<longrightarrow> ds_idle_time (after_read e ds) = 0"
    using assms(2) by (simp add: after_read_name_idle)
  then show ?thesis
    using assms(2) set_put[of nm "after_read e ds" "ds_root s"]
    by (auto simp: update_stats_known(2)[OF Some])
qed

lemma probe_idle_zero:
  assumes "resolve_idle_time its d = Some 0"
    and "\<forall>ds \<in> set (ds_root s). ds_name ds = d \<longrightarrow> ds_idle_time ds = 0"
  shows "\<forall>ds \<in> set (ds_root (fst (snd (probe its nm e s)))).
           ds_name ds = d \<longrightarrow> ds_idle_time ds = 0"
proof (cases e rule: probe_cases)
  case (closed err)
  then show ?thesis using assms(2) by (simp add: probe_closed)
next
  case asleep
  show ?thesis
  proof (cases "get_diskstats nm (ds_root s)")
    case None
    then show ?thesis using assms(2) by (simp add: probe_asleep[OF asleep])
  next
    case (Some ds)
    have "ds \<in> set (ds_root s)" using Some by (rule get_diskstats_mem)
    then have "ds_name (ds\<lparr>spun_down := True\<rparr>) = d \<longrightarrow> ds_idle_time (ds\<lparr>spun_down := True\<rparr>) = 0"
      using assms(2) by simp
    then show ?thesis
      using assms(2) set_put[of nm "ds\<lparr>spun_down := True\<rparr>" "ds_root s"] Some
      by (auto simp: probe_asleep[OF asleep])
  qed
next
  case not_fixed
  then show ?thesis using assms(2) by (simp add: probe_not_fixed)
next
  case perf_failed
  then show ?thesis using assms(2) by (simp add: probe_perf_failed)
next
  case read
  show ?thesis using update_stats_idle_zero[OF assms]
    by (simp add: probe_read[OF read] case_prod_unfold)
qed

lemma probe_idle_zero_count:
  assumes "\<forall>ds \<in> set (ds_root s). ds_name ds = d \<longrightarrow> ds_idle_time ds = 0"
  shows "count_list (snd (snd (probe its nm e s))) (Call_ata_set_standby_mode d) = 0"
proof -
  have "\<not> spins_down e ds" if "get_diskstats d (ds_root s) = Some ds" for ds
    using assms get_diskstats_mem[OF that] get_diskstats_name[OF that]
    by (auto simp: spins_down_def)
  then show ?thesis
    by (auto simp: probe_standby_count split: option.splits)
qed

lemma run_probes_idle_zero:
  assumes "resolve_idle_time its d = Some 0"
    and "\<forall>ds \<in> set (ds_root s). ds_name ds = d \<longrightarrow> ds_idle_time ds = 0"
  shows "count_list (concat (snd (run_probes its es s))) (Call_ata_set_standby_mode d) = 0"
  using assms(2)
proof (induction es arbitrary: s)
  case Nil
  show ?case by simp
next
  case (Cons x es)
  obtain nm e where x: "x = (nm, e)" by (cases x)
  from Cons.IH[OF probe_idle_zero[OF assms(1) Cons.prems, of nm e]]
    probe_idle_zero_count[OF Cons.prems, of its nm e]
  show ?case by (simp add: x case_prod_unfold)
qed

lemma probe_loop_idle_zero:
  assumes "resolve_idle_time its d = Some 0"
    and "\<forall>ds \<in> set (ds_root s). ds_name ds = d \<longrightarrow> ds_idle_time ds = 0"
  shows "(\<forall>ds \<in> set (ds_root (fst (snd (probe_loop its envs n i s)))).
            ds_name ds = d \<longrightarrow> ds_idle_time ds = 0) \<and>
         count_list (snd (snd (probe_loop its envs n i s))) (Call_ata_set_standby_mode d) = 0"
  using assms(2)
proof (induction n arbitrary: i s)
  case 0
  then show ?case by simp
next
  case (Suc n)
  obtain f s' acts where p: "probe its (drive_name i) (envs i) s = (f, s', acts)"
    by (cases "probe its (drive_name i) (envs i) s")
  have inv': "\<forall>ds \<in> set (ds_root s'). ds_name ds = d \<longrightarrow> ds_idle_time ds = 0"
    using probe_idle_zero[OF assms(1) Suc.prems, of "drive_name i" "envs i"] by (simp add: p)
  have c: "count_list acts (Call_ata_set_standby_mode d) = 0"
    using probe_idle_zero_count[OF Suc.prems, of its "drive_name i" "envs i"] by (simp add: p)
  show ?case
    using Suc.IH[OF inv', of "Suc i"] inv' c
    by (cases f) (simp_all add: p case_prod_unfold)
qed

lemma main_loop_idle_zero:
  assumes "resolve_idle_time its d = Some 0"
    and "\<forall>ds \<in> set (ds_root s). ds_name ds = d \<longrightarrow> ds_idle_time ds = 0"
  shows "count_list (snd (snd (main_loop its st cycles s))) (Call_ata_set_standby_mode d) = 0"
  using assms(2)
proof (induction cycles arbitrary: s)
  case Nil
  show ?case by simp
next
  case (Cons envs cycles)
  obtain r s' acts where p: "probe_loop its envs 255 0 s = (r, s', acts)"
    by (cases "probe_loop its envs 255 0 s")
  have inv': "\<forall>ds \<in> set (ds_root s'). ds_name ds = d \<longrightarrow> ds_idle_time ds = 0"
    and c: "count_list acts (Call_ata_set_standby_mode d) = 0"
    using probe_loop_idle_zero[OF assms(1) Cons.prems, of envs 255 0] by (simp_all add: p)
  show ?case
    using Cons.IH[OF inv'] c
    by (cases r) (simp_all add: p case_prod_unfold del: probe_loop.simps)
qed

text \<open>
  C5: when the table resolves the name \<open>d\<close> to the idle time 0, no standby command for \<open>d\<close>
  is ever sent: not in any sequence of passes from the initial state, whatever the system
  answers and however long the counters stay unchanged, hence not in any number of cycles
  of the main loop, and not by \<^verbatim>\<open>main\<close> run with options that build this table.
\<close>

theorem zero_idle_time_never_spun_down:
  assumes "resolve_idle_time its d = Some 0"
  shows "Call_ata_set_standby_mode d \<notin> set (concat (snd (run_probes its es initial_state))) \<and>
         Call_ata_set_standby_mode d \<notin> set (snd (snd (main_loop its st cycles initial_state))) \<and>
         (process_options opts = Inr its \<longrightarrow>
            Call_ata_set_standby_mode d \<notin> set (snd (snd (main opts cycles))))"
proof -
  have inv: "\<forall>ds \<in> set (ds_root initial_state). ds_name ds = d \<longrightarrow> ds_idle_time ds = 0"
    by (simp add: initial_state_def)
  have a: "Call_ata_set_standby_mode d \<notin> set (concat (snd (run_probes its es initial_state)))"
    by (rule count_list_0_iff[THEN iffD1]) (rule run_probes_idle_zero[OF assms inv])
  have b: "Call_ata_set_standby_mode d \<notin> set (snd (snd (main_loop its st' cycles initial_state)))" for st'
    by (rule count_list_0_iff[THEN iffD1]) (rule main_loop_idle_zero[OF assms inv])
  show ?thesis using a b by (simp add: main_def)
qed

theorem zero_idle_time_never_spun_down_witness:
  "resolve_idle_time [\<lparr>it_name = Some (drive_name 1), it_idle_time = 0\<rparr>, \<lparr>it_name = None, it_idle_time = 60\<rparr>]
     (drive_name 1) = Some 0 \<and>
   process_options [Opt_a (drive_name 1), Opt_i 0] =
     Inr [\<lparr>it_name = Some (drive_name 1), it_idle_time = 0\<rparr>, \<lparr>it_name = None, it_idle_time = 60\<rparr>] \<and>
   Call_ata_set_standby_mode (drive_name 1) \<notin>
     set (concat (snd (run_probes
       [\<lparr>it_name = Some (drive_name 1), it_idle_time = 0\<rparr>, \<lparr>it_name = None, it_idle_time = 60\<rparr>]
       [(drive_name 1, awake_env 0 100 50), (drive_name 1, awake_env 100000 100 50)]
       initial_state))) \<and>
   get_diskstats (drive_name 1) (ds_root (fst (run_probes
       [\<lparr>it_name = Some (drive_name 1), it_idle_time = 0\<rparr>, \<lparr>it_name = None, it_idle_time = 60\<rparr>]
       [(drive_name 1, awake_env 0 100 50), (drive_name 1, awake_env 100000 100 50)]
       initial_state))) =
     Some \<lparr>ds_name = drive_name 1, ds_idle_time = 0, last_io = 0, spindown = 0, spinup = 0,
           spun_down = False, reads = 100, writes = 50\<rparr>"
  using zero_idle_time_never_spun_down [of
      "[\<lparr>it_name = Some (drive_name 1), it_idle_time = 0\<rparr>, \<lparr>it_name = None, it_idle_time = 60\<rparr>]"
      "drive_name 1"
      "[(drive_name 1, awake_env 0 100 50), (drive_name 1, awake_env 100000 100 50)]"
      1 "[]" "[Opt_a (drive_name 1), Opt_i 0]"]
  by (simp add: process_options_def DEFAULT_IDLE_TIME_def initial_state_def awake_env_def
      probe_def update_stats_def ata_check_power_mode_def Let_def)

section \<open>The loops as sequences of passes\<close>

text \<open>
  The properties above that speak of successive passes are stated for \<open>run_probes\<close>. The
  lemmas of this section show that they cover the program: what the \<^verbatim>\<open>for\<close> loop and the
  main loop do is what \<open>run_probes\<close> does on the passes they make.
\<close>

lemma run_probes_append:
  "run_probes its (es @ es') s =
     (case run_probes its es s of
        (s1, tr) \<Rightarrow> (case run_probes its es' s1 of (s2, tr') \<Rightarrow> (s2, tr @ tr')))"
  by (induction es arbitrary: s) (auto simp: case_prod_unfold)

lemma probe_no_sleep: "Sleep t \<notin> set (snd (snd (probe its nm e s)))"
proof (cases e rule: probe_cases)
  case (closed err)
  then show ?thesis by (simp add: probe_def)
next
  case asleep
  then show ?thesis by (simp add: probe_asleep)
next
  case not_fixed
  then show ?thesis by (simp add: probe_def)
next
  case perf_failed
  then show ?thesis
    by (auto simp: probe_def case_prod_unfold Let_def dest: ata_check_power_mode_printf)
next
  case read
  have "Sleep t \<notin> set (snd (snd (update_stats its nm e m s)))" for m
    by (auto simp: update_stats_def Let_def dest: ata_set_standby_mode_printf
        split: option.splits if_splits)
  then show ?thesis
    by (auto simp: probe_read[OF read] case_prod_unfold dest: ata_check_power_mode_printf)
qed

text \<open>Every run of the \<^verbatim>\<open>for\<close> loop is a sequence of passes over drives named by \<open>drive_name\<close>.\<close>

lemma probe_loop_as_run:
  "\<exists>es. fst (snd (probe_loop its envs n i s)) = fst (run_probes its es s) \<and>
        snd (snd (probe_loop its envs n i s)) = concat (snd (run_probes its es s)) \<and>
        (\<forall>(nm, e) \<in> set es. \<exists>j. nm = drive_name j \<and> e = envs j)"
proof (induction n arbitrary: i s)
  case 0
  have "fst (snd (probe_loop its envs 0 i s)) = fst (run_probes its [] s) \<and>
        snd (snd (probe_loop its envs 0 i s)) = concat (snd (run_probes its [] s)) \<and>
        (\<forall>(nm, e) \<in> set []. \<exists>j. nm = drive_name j \<and> e = envs j)"
    by simp
  then show ?case by blast
next
  case (Suc n)
  obtain f s' acts where p: "probe its (drive_name i) (envs i) s = (f, s', acts)"
    by (cases "probe its (drive_name i) (envs i) s")
  from Suc[of "Suc i" s'] obtain es where es:
    "fst (snd (probe_loop its envs n (Suc i) s')) = fst (run_probes its es s')"
    "snd (snd (probe_loop its envs n (Suc i) s')) = concat (snd (run_probes its es s'))"
    "\<forall>(nm, e) \<in> set es. \<exists>j. nm = drive_name j \<and> e = envs j"
    by blast
  let ?x = "(drive_name i, envs i)"
  show ?case
  proof (cases "f = Continue")
    case True
    have "fst (snd (probe_loop its envs (Suc n) i s)) = fst (run_probes its (?x # es) s) \<and>
        snd (snd (probe_loop its envs (Suc n) i s)) = concat (snd (run_probes its (?x # es) s)) \<and>
        (\<forall>(nm, e) \<in> set (?x # es). \<exists>j. nm = drive_name j \<and> e = envs j)"
      using True es by (auto simp: p case_prod_unfold)
    then show ?thesis by blast
  next
    case False
    have "fst (snd (probe_loop its envs (Suc n) i s)) = fst (run_probes its [?x] s) \<and>
        snd (snd (probe_loop its envs (Suc n) i s)) = concat (snd (run_probes its [?x] s)) \<and>
        (\<forall>(nm, e) \<in> set [?x]. \<exists>j. nm = drive_name j \<and> e = envs j)"
      using False by (cases f) (auto simp: p)
    then show ?thesis by blast
  qed
qed

lemma run_probes_no_sleep: "Sleep t \<notin> set (concat (snd (run_probes its es s)))"
  by (induction es arbitrary: s) (auto simp: case_prod_unfold probe_no_sleep)

text \<open>
  Every run of the main loop is a sequence of passes, interleaved with \<^verbatim>\<open>sleep\<close>: the
  state it reaches and the actions other than \<open>Sleep\<close> are those of \<open>run_probes\<close>.
\<close>

lemma main_loop_as_run:
  "\<exists>es. fst (snd (main_loop its st cycles s)) = fst (run_probes its es s) \<and>
        filter (\<lambda>a. a \<noteq> Sleep st) (snd (snd (main_loop its st cycles s))) =
          concat (snd (run_probes its es s))"
proof (induction cycles arbitrary: s)
  case Nil
  have "fst (snd (main_loop its st [] s)) = fst (run_probes its [] s) \<and>
        filter (\<lambda>a. a \<noteq> Sleep st) (snd (snd (main_loop its st [] s))) =
          concat (snd (run_probes its [] s))"
    by simp
  then show ?case by blast
next
  case (Cons envs cycles)
  obtain r s' acts where p: "probe_loop its envs 255 0 s = (r, s', acts)"
    by (cases "probe_loop its envs 255 0 s")
  from probe_loop_as_run[of its envs 255 0 s] obtain es where es:
    "s' = fst (run_probes its es s)" "acts = concat (snd (run_probes its es s))"
    by (auto simp: p)
  have ns: "filter (\<lambda>a. a \<noteq> Sleep st) acts = acts"
    using run_probes_no_sleep[of st its es s] unfolding es(2) filter_id_conv by blast
  from Cons[of s'] obtain es' where es':
    "fst (snd (main_loop its st cycles s')) = fst (run_probes its es' s')"
    "filter (\<lambda>a. a \<noteq> Sleep st) (snd (snd (main_loop its st cycles s'))) =
       concat (snd (run_probes its es' s'))"
    by blast
  show ?case
  proof (cases r)
    case (Some c)
    have "fst (snd (main_loop its st (envs # cycles) s)) = fst (run_probes its es s) \<and>
        filter (\<lambda>a. a \<noteq> Sleep st) (snd (snd (main_loop its st (envs # cycles) s))) =
          concat (snd (run_probes its es s))"
      using Some es ns by (simp add: p del: probe_loop.simps)
    then show ?thesis by blast
  next
    case None
    have "fst (snd (main_loop its st (envs # cycles) s)) = fst (run_probes its (es @ es') s) \<and>
        filter (\<lambda>a. a \<noteq> Sleep st) (snd (snd (main_loop its st (envs # cycles) s))) =
          concat (snd (run_probes its (es @ es') s))"
      using None es es' ns
      by (simp add: p run_probes_append case_prod_unfold del: probe_loop.simps)
    then show ?thesis by blast
  qed
qed

end
